theory Spec2Isabelle
  imports Main "HOL-Library.AList"
begin

section \<open>JavaScript values, strings and objects\<close>

text \<open>
  The values the builders store are arbitrary JavaScript values (\<^verbatim>\<open>any\<close>). Numbers are
  modelled as the integers plus \<^verbatim>\<open>NaN\<close> (the only non-integer number the validators
  distinguish); strings are lists of characters; a plain object is an association list in
  insertion order, assigned to with \<^const>\<open>AList.update\<close> (an existing key keeps its place,
  a new key goes to the end) and read with \<^const>\<open>map_of\<close>.
\<close>

datatype jsval =
    JUndefined
  | JNull
  | JBool bool
  | JNum int
  | JNaN
  | JStr string
  | JArr "jsval list"
  | JObj "(string \<times> jsval) list"

datatype error = Error string

type_synonym 'a js_object = "(string \<times> 'a) list"

text \<open>JavaScript truthiness (\<^verbatim>\<open>if (v)\<close>, \<^verbatim>\<open>!v\<close>, \<^verbatim>\<open>a || b\<close>).\<close>

fun truthy :: "jsval \<Rightarrow> bool" where
  "truthy JUndefined = False"
| "truthy JNull = False"
| "truthy (JBool b) = b"
| "truthy (JNum n) = (n \<noteq> 0)"
| "truthy JNaN = False"
| "truthy (JStr s) = (s \<noteq> [])"
| "truthy (JArr _) = True"
| "truthy (JObj _) = True"

text \<open>\<^verbatim>\<open>typeof v === 'object'\<close>: objects, arrays and \<^verbatim>\<open>null\<close>.\<close>

fun typeof_object :: "jsval \<Rightarrow> bool" where
  "typeof_object JNull = True"
| "typeof_object (JArr _) = True"
| "typeof_object (JObj _) = True"
| "typeof_object _ = False"

text \<open>Property read \<^verbatim>\<open>v.name\<close> on a non-null value: only plain objects carry the
  properties the code looks for; anything else gives \<^verbatim>\<open>undefined\<close>.\<close>

fun js_prop :: "jsval \<Rightarrow> string \<Rightarrow> jsval" where
  "js_prop (JObj kvs) k = (case map_of kvs k of Some v \<Rightarrow> v | None \<Rightarrow> JUndefined)"
| "js_prop _ k = JUndefined"

text \<open>Indexed read \<^verbatim>\<open>v[i]\<close>: an element of an array, a one-character string of a
  string, \<^verbatim>\<open>undefined\<close> out of range or on another value; a \<^verbatim>\<open>TypeError\<close> on
  \<^verbatim>\<open>null\<close> and \<^verbatim>\<open>undefined\<close>.\<close>

fun js_index :: "jsval \<Rightarrow> nat \<Rightarrow> error + jsval" where
  "js_index JUndefined i = Inl (Error ''TypeError: Cannot read properties of undefined'')"
| "js_index JNull i = Inl (Error ''TypeError: Cannot read properties of null'')"
| "js_index (JArr xs) i = Inr (if i < length xs then xs ! i else JUndefined)"
| "js_index (JStr s) i = Inr (if i < length s then JStr [s ! i] else JUndefined)"
| "js_index _ i = Inr JUndefined"

text \<open>\<^verbatim>\<open>Array.prototype.join\<close> on strings.\<close>

fun join :: "string \<Rightarrow> string list \<Rightarrow> string" where
  "join sep [] = []"
| "join sep [x] = x"
| "join sep (x # y # ys) = x @ sep @ join sep (y # ys)"

text \<open>Decimal rendering of a non-negative integer counter inside a template literal.\<close>

definition digit_char :: "nat \<Rightarrow> char" where
  "digit_char d = ''0123456789'' ! d"

fun show_nat :: "nat \<Rightarrow> string" where
  "show_nat n = (if n < 10 then [digit_char n] else show_nat (n div 10) @ [digit_char (n mod 10)])"

declare show_nat.simps [simp del]

text \<open>The character classes of the regular expressions in the source.\<close>

definition is_upper :: "char \<Rightarrow> bool" where
  "is_upper c = (65 \<le> (of_char c :: nat) \<and> (of_char c :: nat) \<le> 90)"

definition is_lower :: "char \<Rightarrow> bool" where
  "is_lower c = (97 \<le> (of_char c :: nat) \<and> (of_char c :: nat) \<le> 122)"

definition is_digit :: "char \<Rightarrow> bool" where
  "is_digit c = (48 \<le> (of_char c :: nat) \<and> (of_char c :: nat) \<le> 57)"

text \<open>\<^verbatim>\<open>[a-zA-Z0-9_]\<close>, which is also \<^verbatim>\<open>\w\<close>.\<close>

definition is_word_char :: "char \<Rightarrow> bool" where
  "is_word_char c = (is_lower c \<or> is_upper c \<or> is_digit c \<or> c = CHR ''_'')"

text \<open>\<^verbatim>\<open>/^[a-zA-Z0-9_]+$/.test(s)\<close>\<close>

definition all_word_chars :: "string \<Rightarrow> bool" where
  "all_word_chars s = (s \<noteq> [] \<and> list_all is_word_char s)"

section \<open>Query builder (query-builder.ts)\<close>

datatype QueryOperationType =
  EQUALS | NOT_EQUALS | GREATER_THAN | LESS_THAN | CONTAINS | BEGINS_WITH | IN | BETWEEN

record QueryCondition =
  qc_field :: string
  qc_value :: jsval
  qc_operation :: QueryOperationType

record QueryBuilder =
  conditions :: "QueryCondition list"
  indexName :: "string option"
  limit :: "jsval option"
  selectedFields :: "string list option"

definition new_QueryBuilder :: QueryBuilder where
  "new_QueryBuilder = \<lparr>conditions = [], indexName = None, limit = None, selectedFields = None\<rparr>"

definition MAX_LIMIT :: int where
  "MAX_LIMIT = 1000"

definition MAX_CONDITIONS :: nat where
  "MAX_CONDITIONS = 100"

definition validateFieldName :: "string \<Rightarrow> error + unit" where
  "validateFieldName field =
     (if field = [] then Inl (Error ''Field name must be a non-empty string'')
      else if \<not> all_word_chars field
        then Inl (Error ''Field name can only contain alphanumeric characters and underscores'')
      else Inr ())"

definition validateValue :: "jsval \<Rightarrow> error + unit" where
  "validateValue v =
     (if v = JUndefined \<or> v = JNull then Inl (Error ''Value cannot be undefined or null'')
      else case v of
        JStr s \<Rightarrow> if length s > 400000
                   then Inl (Error ''String value exceeds maximum length of 400KB'')
                   else Inr ()
      | _ \<Rightarrow> Inr ())"

text \<open>\<^verbatim>\<open>typeof value !== 'number' || isNaN(value)\<close>\<close>

fun not_valid_number :: "jsval \<Rightarrow> bool" where
  "not_valid_number (JNum n) = False"
| "not_valid_number _ = True"

text \<open>The tail shared by every condition method: the count check and the push.\<close>

definition push_condition :: "QueryBuilder \<Rightarrow> string \<Rightarrow> jsval \<Rightarrow> QueryOperationType \<Rightarrow> error + QueryBuilder" where
  "push_condition b field v opn =
     (if length (conditions b) \<ge> MAX_CONDITIONS
      then Inl (Error ''Maximum number of conditions (100) exceeded'')
      else Inr (b\<lparr>conditions := conditions b @ [\<lparr>qc_field = field, qc_value = v, qc_operation = opn\<rparr>]\<rparr>))"

text \<open>\<^verbatim>\<open>equals\<close>, \<^verbatim>\<open>notEquals\<close> and \<^verbatim>\<open>contains\<close> share one body up to the operation.\<close>

definition add_validated :: "QueryOperationType \<Rightarrow> QueryBuilder \<Rightarrow> string \<Rightarrow> jsval \<Rightarrow> error + QueryBuilder" where
  "add_validated opn b field v =
     (case validateFieldName field of Inl e \<Rightarrow> Inl e
      | Inr _ \<Rightarrow> (case validateValue v of Inl e \<Rightarrow> Inl e
      | Inr _ \<Rightarrow> push_condition b field v opn))"

definition equals :: "QueryBuilder \<Rightarrow> string \<Rightarrow> jsval \<Rightarrow> error + QueryBuilder" where
  "equals = add_validated EQUALS"

definition notEquals :: "QueryBuilder \<Rightarrow> string \<Rightarrow> jsval \<Rightarrow> error + QueryBuilder" where
  "notEquals = add_validated NOT_EQUALS"

definition contains :: "QueryBuilder \<Rightarrow> string \<Rightarrow> jsval \<Rightarrow> error + QueryBuilder" where
  "contains = add_validated CONTAINS"

text \<open>\<^verbatim>\<open>greaterThan\<close> and \<^verbatim>\<open>lessThan\<close> share one body up to the operation.\<close>

definition add_numeric :: "QueryOperationType \<Rightarrow> QueryBuilder \<Rightarrow> string \<Rightarrow> jsval \<Rightarrow> error + QueryBuilder" where
  "add_numeric opn b field v =
     (case validateFieldName field of Inl e \<Rightarrow> Inl e
      | Inr _ \<Rightarrow> if not_valid_number v then Inl (Error ''Value must be a valid number'')
                 else push_condition b field v opn)"

definition greaterThan_q :: "QueryBuilder \<Rightarrow> string \<Rightarrow> jsval \<Rightarrow> error + QueryBuilder" where
  "greaterThan_q = add_numeric GREATER_THAN"

definition lessThan_q :: "QueryBuilder \<Rightarrow> string \<Rightarrow> jsval \<Rightarrow> error + QueryBuilder" where
  "lessThan_q = add_numeric LESS_THAN"

definition beginsWith :: "QueryBuilder \<Rightarrow> string \<Rightarrow> jsval \<Rightarrow> error + QueryBuilder" where
  "beginsWith b field v =
     (case validateFieldName field of Inl e \<Rightarrow> Inl e
      | Inr _ \<Rightarrow> (case v of JStr s \<Rightarrow> push_condition b field v BEGINS_WITH
                  | _ \<Rightarrow> Inl (Error ''Value must be a string'')))"

fun validate_all :: "jsval list \<Rightarrow> error + unit" where
  "validate_all [] = Inr ()"
| "validate_all (v # vs) = (case validateValue v of Inl e \<Rightarrow> Inl e | Inr _ \<Rightarrow> validate_all vs)"

definition in_values :: "QueryBuilder \<Rightarrow> string \<Rightarrow> jsval \<Rightarrow> error + QueryBuilder" where
  "in_values b field v =
     (case validateFieldName field of Inl e \<Rightarrow> Inl e
      | Inr _ \<Rightarrow> (case v of
          JArr vs \<Rightarrow> if vs = [] then Inl (Error ''Values must be a non-empty array'')
                     else (case validate_all vs of Inl e \<Rightarrow> Inl e
                           | Inr _ \<Rightarrow> push_condition b field v IN)
        | _ \<Rightarrow> Inl (Error ''Values must be a non-empty array'')))"

definition between :: "QueryBuilder \<Rightarrow> string \<Rightarrow> jsval \<Rightarrow> jsval \<Rightarrow> error + QueryBuilder" where
  "between b field start end =
     (case validateFieldName field of Inl e \<Rightarrow> Inl e
      | Inr _ \<Rightarrow> (case (start, end) of
          (JNum s, JNum e) \<Rightarrow>
            if s > e then Inl (Error ''Start value must be less than or equal to end value'')
            else push_condition b field (JArr [start, end]) BETWEEN
        | _ \<Rightarrow> Inl (Error ''Start and end values must be valid numbers'')))"

definition usingIndex :: "QueryBuilder \<Rightarrow> string \<Rightarrow> error + QueryBuilder" where
  "usingIndex b name =
     (if name = [] then Inl (Error ''Index name must be a non-empty string'')
      else if \<not> all_word_chars name
        then Inl (Error ''Index name can only contain alphanumeric characters and underscores'')
      else Inr (b\<lparr>indexName := Some name\<rparr>))"

definition withLimit :: "QueryBuilder \<Rightarrow> jsval \<Rightarrow> error + QueryBuilder" where
  "withLimit b l =
     (case l of
        JNum n \<Rightarrow> if n < 1 \<or> n > MAX_LIMIT
                  then Inl (Error ''Limit must be a number between 1 and 1000'')
                  else Inr (b\<lparr>limit := Some l\<rparr>)
      | JNaN \<Rightarrow> Inr (b\<lparr>limit := Some l\<rparr>)
      | _ \<Rightarrow> Inl (Error ''Limit must be a number between 1 and 1000''))"

fun validate_fields :: "string list \<Rightarrow> error + unit" where
  "validate_fields [] = Inr ()"
| "validate_fields (f # fs) = (case validateFieldName f of Inl e \<Rightarrow> Inl e | Inr _ \<Rightarrow> validate_fields fs)"

definition selectFields :: "QueryBuilder \<Rightarrow> string list \<Rightarrow> error + QueryBuilder" where
  "selectFields b fs =
     (if fs = [] then Inl (Error ''Fields must be a non-empty array'')
      else case validate_fields fs of Inl e \<Rightarrow> Inl e
           | Inr _ \<Rightarrow> Inr (b\<lparr>selectedFields := Some fs\<rparr>))"

record KeyCondition =
  expression :: string
  kc_values :: "jsval js_object"

record QueryParams =
  qp_conditions :: "QueryCondition list"
  qp_indexName :: "string option"
  qp_limit :: "jsval option"
  qp_select :: "string list option"
  keyCondition :: KeyCondition

definition build :: "QueryBuilder \<Rightarrow> error + QueryParams" where
  "build b =
     (case conditions b of
        [] \<Rightarrow> Inl (Error ''No conditions specified'')
      | kc # _ \<Rightarrow>
          (case (case qc_operation kc of
                   EQUALS \<Rightarrow>
                     Inr \<lparr>expression = qc_field kc @ '' = :keyValue'',
                          kc_values = AList.update '':keyValue'' (qc_value kc) []\<rparr>
                 | BEGINS_WITH \<Rightarrow>
                     Inr \<lparr>expression = ''begins_with('' @ qc_field kc @ '', :keyValue)'',
                          kc_values = AList.update '':keyValue'' (qc_value kc) []\<rparr>
                 | BETWEEN \<Rightarrow>
                     (case js_index (qc_value kc) 0 of Inl e \<Rightarrow> Inl e
                      | Inr v0 \<Rightarrow> (case js_index (qc_value kc) 1 of Inl e \<Rightarrow> Inl e
                      | Inr v1 \<Rightarrow>
                          Inr \<lparr>expression = qc_field kc @ '' BETWEEN :start AND :end'',
                               kc_values = AList.update '':end'' v1 (AList.update '':start'' v0 [])\<rparr>))
                 | _ \<Rightarrow>
                     Inr \<lparr>expression = qc_field kc @ '' = :keyValue'',
                          kc_values = AList.update '':keyValue'' (qc_value kc) []\<rparr>) of
             Inl e \<Rightarrow> Inl e
           | Inr k \<Rightarrow>
               Inr \<lparr>qp_conditions = conditions b, qp_indexName = indexName b, qp_limit = limit b,
                    qp_select = selectedFields b, keyCondition = k\<rparr>))"


section \<open>Reserved words and the expression attribute handler (reserved-words.js)\<close>

text \<open>\<^verbatim>\<open>String.prototype.toLowerCase\<close> on ASCII text.\<close>

definition toLowerCase_char :: "char \<Rightarrow> char" where
  "toLowerCase_char c =
     (case map_of (zip ''ABCDEFGHIJKLMNOPQRSTUVWXYZ'' ''abcdefghijklmnopqrstuvwxyz'') c of
        Some l \<Rightarrow> l
      | None \<Rightarrow> c)"

definition toLowerCase :: "string \<Rightarrow> string" where
  "toLowerCase s = map toLowerCase_char s"

text \<open>The words of the array literal, as written in the source.\<close>

definition RESERVED_WORD_LIST :: "string list" where
  "RESERVED_WORD_LIST = [
  ''ABORT'', ''ABSOLUTE'', ''ACTION'', ''ADD'', ''AFTER'', ''AGENT'', ''AGGREGATE'', ''ALL'',
     ''ALLOCATE'', ''ALTER'', ''ANALYZE'', ''AND'', ''ANY'', ''ARCHIVE'', ''ARE'', ''ARRAY'',
     ''AS'', ''ASC'', ''ASCII'', ''ASENSITIVE'', ''ASSERTION'', ''ASYMMETRIC'', ''AT'',
     ''ATOMIC'', ''ATTACH'', ''ATTRIBUTE'', ''AUTH'', ''AUTHORIZATION'', ''AUTHORIZE'',
     ''AUTO'', ''AVG'', ''BACK'', ''BACKUP'', ''BASE'', ''BATCH'', ''BEFORE'', ''BEGIN'',
     ''BETWEEN'', ''BIGINT'', ''BINARY'', ''BIT'', ''BLOB'', ''BLOCK'', ''BOOLEAN'', ''BOTH'',
     ''BREADTH'', ''BUCKET'', ''BULK'', ''BY'', ''BYTE'', ''CALL'', ''CALLED'', ''CALLING'',
     ''CAPACITY'', ''CASCADE'', ''CASCADED'', ''CASE'', ''CAST'', ''CATALOG'', ''CHAR'',
     ''CHARACTER'', ''CHECK'', ''CLASS'', ''CLOB'', ''CLOSE'', ''CLUSTER'', ''CLUSTERED'',
     ''CLUSTERING'', ''CLUSTERS'', ''COALESCE'', ''COLLATE'', ''COLLATION'', ''COLLECTION'',
     ''COLUMN'', ''COLUMNS'', ''COMBINE'', ''COMMENT'', ''COMMIT'', ''COMPACT'', ''COMPILE'',
     ''COMPRESS'', ''CONDITION'', ''CONFLICT'', ''CONNECT'', ''CONNECTION'', ''CONSISTENCY'',
     ''CONSISTENT'', ''CONSTRAINT'', ''CONSTRAINTS'', ''CONSTRUCTOR'', ''CONSUMED'',
     ''CONTINUE'', ''CONVERT'', ''COPY'', ''CORRESPONDING'', ''COUNT'', ''COUNTER'',
     ''CREATE'', ''CROSS'', ''CUBE'', ''CURRENT'', ''CURSOR'', ''CYCLE'', ''DATA'',
     ''DATABASE'', ''DATE'', ''DATETIME'', ''DAY'', ''DEALLOCATE'', ''DEC'', ''DECIMAL'',
     ''DECLARE'', ''DEFAULT'', ''DEFERRABLE'', ''DEFERRED'', ''DEFINE'', ''DEFINED'',
     ''DEFINITION'', ''DELETE'', ''DELIMITED'', ''DEPTH'', ''DEREF'', ''DESC'', ''DESCRIBE'',
     ''DESCRIPTOR'', ''DETACH'', ''DETERMINISTIC'', ''DIAGNOSTICS'', ''DIRECTORIES'',
     ''DISABLE'', ''DISCONNECT'', ''DISTINCT'', ''DISTRIBUTE'', ''DO'', ''DOMAIN'', ''DOUBLE'',
     ''DROP'', ''DUMP'', ''DURATION'', ''DYNAMIC'', ''EACH'', ''ELEMENT'', ''ELSE'',
     ''ELSEIF'', ''EMPTY'', ''ENABLE'', ''END'', ''EQUAL'', ''EQUALS'', ''ERROR'', ''ESCAPE'',
     ''ESCAPED'', ''EVAL'', ''EVALUATE'', ''EXCEEDED'', ''EXCEPT'', ''EXCEPTION'',
     ''EXCEPTIONS'', ''EXCLUSIVE'', ''EXEC'', ''EXECUTE'', ''EXISTS'', ''EXIT'', ''EXPLAIN'',
     ''EXPLODE'', ''EXPORT'', ''EXPRESSION'', ''EXTENDED'', ''EXTERNAL'', ''EXTRACT'',
     ''FAIL'', ''FALSE'', ''FAMILY'', ''FETCH'', ''FIELDS'', ''FILE'', ''FILTER'',
     ''FILTERING'', ''FINAL'', ''FINISH'', ''FIRST'', ''FIXED'', ''FLATTERN'', ''FLOAT'',
     ''FOR'', ''FORCE'', ''FOREIGN'', ''FORMAT'', ''FORWARD'', ''FOUND'', ''FREE'', ''FROM'',
     ''FULL'', ''FUNCTION'', ''FUNCTIONS'', ''GENERAL'', ''GENERATE'', ''GET'', ''GLOB'',
     ''GLOBAL'', ''GO'', ''GOTO'', ''GRANT'', ''GREATER'', ''GROUP'', ''GROUPING'',
     ''HANDLER'', ''HASH'', ''HAVE'', ''HAVING'', ''HEAP'', ''HIDDEN'', ''HOLD'', ''HOUR'',
     ''IDENTIFIED'', ''IDENTITY'', ''IF'', ''IGNORE'', ''IMMEDIATE'', ''IMPORT'', ''IN'',
     ''INCLUDING'', ''INCLUSIVE'', ''INCREMENT'', ''INCREMENTAL'', ''INDEX'', ''INDEXED'',
     ''INDEXES'', ''INDICATOR'', ''INFINITE'', ''INITIALLY'', ''INLINE'', ''INNER'',
     ''INNTER'', ''INOUT'', ''INPUT'', ''INSENSITIVE'', ''INSERT'', ''INSTEAD'', ''INT'',
     ''INTEGER'', ''INTERSECT'', ''INTERVAL'', ''INTO'', ''INVALIDATE'', ''IS'', ''ISOLATION'',
     ''ITEM'', ''ITEMS'', ''ITERATE'', ''JOIN'', ''KEY'', ''KEYS'', ''LAG'', ''LANGUAGE'',
     ''LARGE'', ''LAST'', ''LATERAL'', ''LEAD'', ''LEADING'', ''LEAVE'', ''LEFT'', ''LENGTH'',
     ''LESS'', ''LEVEL'', ''LIKE'', ''LIMIT'', ''LIMITED'', ''LINES'', ''LIST'', ''LOAD'',
     ''LOCAL'', ''LOCALTIME'', ''LOCALTIMESTAMP'', ''LOCATION'', ''LOCATOR'', ''LOCK'',
     ''LOCKS'', ''LOG'', ''LOGED'', ''LONG'', ''LOOP'', ''LOWER'', ''MAP'', ''MATCH'',
     ''MATERIALIZED'', ''MAX'', ''MAXLEN'', ''MEMBER'', ''MERGE'', ''METHOD'', ''METRICS'',
     ''MIN'', ''MINUS'', ''MINUTE'', ''MISSING'', ''MOD'', ''MODE'', ''MODIFIES'', ''MODIFY'',
     ''MODULE'', ''MONTH'', ''MULTI'', ''MULTISET'', ''NAME'', ''NAMES'', ''NATIONAL'',
     ''NATURAL'', ''NCHAR'', ''NCLOB'', ''NEW'', ''NEXT'', ''NO'', ''NONE'', ''NOT'', ''NULL'',
     ''NULLIF'', ''NUMBER'', ''NUMERIC'', ''OBJECT'', ''OF'', ''OFFLINE'', ''OFFSET'', ''OLD'',
     ''ON'', ''ONLINE'', ''ONLY'', ''OPAQUE'', ''OPEN'', ''OPERATOR'', ''OPTION'', ''OR'',
     ''ORDER'', ''ORDINALITY'', ''OTHER'', ''OTHERS'', ''OUT'', ''OUTER'', ''OUTPUT'',
     ''OVER'', ''OVERLAPS'', ''OVERRIDE'', ''OWNER'', ''PAD'', ''PARALLEL'', ''PARAMETER'',
     ''PARAMETERS'', ''PARTIAL'', ''PARTITION'', ''PARTITIONED'', ''PARTITIONS'', ''PATH'',
     ''PERCENT'', ''PERCENTILE'', ''PERMISSION'', ''PERMISSIONS'', ''PIPE'', ''PIPELINED'',
     ''PLAN'', ''POOL'', ''POSITION'', ''PRECISION'', ''PREPARE'', ''PRESERVE'', ''PRIMARY'',
     ''PRIOR'', ''PRIVATE'', ''PRIVILEGES'', ''PROCEDURE'', ''PROCESSED'', ''PROJECT'',
     ''PROJECTION'', ''PROPERTY'', ''PROVISIONING'', ''PUBLIC'', ''PUT'', ''QUERY'', ''QUIT'',
     ''QUORUM'', ''RAISE'', ''RANDOM'', ''RANGE'', ''RANK'', ''RAW'', ''READ'', ''READS'',
     ''REAL'', ''REBUILD'', ''RECORD'', ''RECURSIVE'', ''REDUCE'', ''REF'', ''REFERENCE'',
     ''REFERENCES'', ''REFERENCING'', ''REGEXP'', ''REGION'', ''REINDEX'', ''RELATIVE'',
     ''RELEASE'', ''REMAINDER'', ''RENAME'', ''REPEAT'', ''REPLACE'', ''REQUEST'', ''RESET'',
     ''RESIGNAL'', ''RESOURCE'', ''RESPONSE'', ''RESTORE'', ''RESTRICT'', ''RESULT'',
     ''RETURN'', ''RETURNING'', ''RETURNS'', ''REVERSE'', ''REVOKE'', ''RIGHT'', ''ROLE'',
     ''ROLES'', ''ROLLBACK'', ''ROLLUP'', ''ROUTINE'', ''ROW'', ''ROWS'', ''RULE'', ''RULES'',
     ''SAMPLE'', ''SATISFIES'', ''SAVE'', ''SAVEPOINT'', ''SCAN'', ''SCHEMA'', ''SCOPE'',
     ''SCROLL'', ''SEARCH'', ''SECOND'', ''SECTION'', ''SEGMENT'', ''SEGMENTS'', ''SELECT'',
     ''SELF'', ''SEMI'', ''SENSITIVE'', ''SEPARATE'', ''SEQUENCE'', ''SERIALIZABLE'',
     ''SESSION'', ''SET'', ''SETS'', ''SHARD'', ''SHARE'', ''SHARED'', ''SHORT'', ''SHOW'',
     ''SIGNAL'', ''SIMILAR'', ''SIZE'', ''SKEWED'', ''SMALLINT'', ''SNAPSHOT'', ''SOME'',
     ''SOURCE'', ''SPACE'', ''SPACES'', ''SPARSE'', ''SPECIFIC'', ''SPECIFICTYPE'', ''SPLIT'',
     ''SQL'', ''SQLCODE'', ''SQLERROR'', ''SQLEXCEPTION'', ''SQLSTATE'', ''SQLWARNING'',
     ''START'', ''STATE'', ''STATIC'', ''STATUS'', ''STORAGE'', ''STORE'', ''STORED'',
     ''STREAM'', ''STRING'', ''STRUCT'', ''STYLE'', ''SUB'', ''SUBMULTISET'', ''SUBPARTITION'',
     ''SUBSTRING'', ''SUBTYPE'', ''SUM'', ''SUPER'', ''SYMMETRIC'', ''SYNONYM'', ''SYSTEM'',
     ''TABLE'', ''TABLESAMPLE'', ''TEMP'', ''TEMPORARY'', ''TERMINATED'', ''TEXT'', ''THAN'',
     ''THEN'', ''THROUGHPUT'', ''TIME'', ''TIMESTAMP'', ''TIMEZONE'', ''TINYINT'', ''TO'',
     ''TOKEN'', ''TOTAL'', ''TOUCH'', ''TRAILING'', ''TRANSACTION'', ''TRANSFORM'',
     ''TRANSLATE'', ''TRANSLATION'', ''TREAT'', ''TRIGGER'', ''TRIM'', ''TRUE'', ''TRUNCATE'',
     ''TTL'', ''TUPLE'', ''TYPE'', ''UNDER'', ''UNDO'', ''UNION'', ''UNIQUE'', ''UNIT'',
     ''UNKNOWN'', ''UNLOGGED'', ''UNNEST'', ''UNPROCESSED'', ''UNSIGNED'', ''UNTIL'',
     ''UPDATE'', ''UPPER'', ''URL'', ''USAGE'', ''USE'', ''USER'', ''USERS'', ''USING'',
     ''UUID'', ''VACUUM'', ''VALUE'', ''VALUED'', ''VALUES'', ''VARCHAR'', ''VARIABLE'',
     ''VARIANCE'', ''VARINT'', ''VARYING'', ''VIEW'', ''VIEWS'', ''VIRTUAL'', ''VOID'',
     ''WAIT'', ''WHEN'', ''WHENEVER'', ''WHERE'', ''WHILE'', ''WINDOW'', ''WITH'', ''WITHIN'',
     ''WITHOUT'', ''WORK'', ''WRAPPED'', ''WRITE'', ''YEAR'', ''ZONE'']"

text \<open>\<^verbatim>\<open>new Set([...].map(word => word.toLowerCase()))\<close>\<close>

definition DYNAMODB_RESERVED_WORDS :: "string set" where
  "DYNAMODB_RESERVED_WORDS = set (map toLowerCase RESERVED_WORD_LIST)"

text \<open>\<^verbatim>\<open>ReservedWords.isReserved\<close> and \<^verbatim>\<open>ExpressionAttributeHandler.isReservedWord\<close>
  have the same body.\<close>

definition isReserved :: "string \<Rightarrow> bool" where
  "isReserved word = (toLowerCase word \<in> DYNAMODB_RESERVED_WORDS)"

definition isReservedWord :: "string \<Rightarrow> bool" where
  "isReservedWord attributeName = (toLowerCase attributeName \<in> DYNAMODB_RESERVED_WORDS)"

record ExpressionAttributeHandler =
  expressionAttributeNames :: "string js_object"
  attributeNameMap :: "(string \<times> string) list"
  nameCount :: nat

definition new_ExpressionAttributeHandler :: ExpressionAttributeHandler where
  "new_ExpressionAttributeHandler =
     \<lparr>expressionAttributeNames = [], attributeNameMap = [], nameCount = 0\<rparr>"

text \<open>\<^verbatim>\<open>s.split(c)\<close> for a one-character separator: never an empty list.\<close>

function split_on :: "char \<Rightarrow> string \<Rightarrow> string list" where
  "split_on c s =
     (case dropWhile (\<lambda>x. x \<noteq> c) s of
        [] \<Rightarrow> [takeWhile (\<lambda>x. x \<noteq> c) s]
      | _ # r \<Rightarrow> takeWhile (\<lambda>x. x \<noteq> c) s # split_on c r)"
  by pat_completeness auto
termination
proof (relation "measure (\<lambda>(c, s). length s)")
  show "wf (measure (\<lambda>(c, s). length s))" by simp
next
  fix c :: char and s :: string and x r
  assume "dropWhile (\<lambda>x. x \<noteq> c) s = x # r"
  then have "length (x # r) \<le> length s"
    by (metis length_dropWhile_le)
  then show "((c, r), (c, s)) \<in> measure (\<lambda>(c, s). length s)" by simp
qed

declare split_on.simps [simp del]

text \<open>The body of the \<^verbatim>\<open>parts.map\<close> callback of \<^verbatim>\<open>getExpressionAttributeName\<close>: the
  placeholder of one path segment and the handler after it.\<close>

definition processPart :: "ExpressionAttributeHandler \<Rightarrow> string \<Rightarrow> string \<times> ExpressionAttributeHandler" where
  "processPart h part =
     (if isReservedWord part \<or> CHR ''-'' \<in> set part \<or> CHR '' '' \<in> set part then
        (case map_of (attributeNameMap h) part of
           Some p \<Rightarrow> (p, h)
         | None \<Rightarrow>
             (let placeholder = ''#n'' @ show_nat (nameCount h + 1)
              in (placeholder,
                  h\<lparr>nameCount := nameCount h + 1,
                    attributeNameMap := AList.update part placeholder (attributeNameMap h),
                    expressionAttributeNames :=
                      AList.update placeholder part (expressionAttributeNames h)\<rparr>)))
      else (part, h))"

fun processParts :: "ExpressionAttributeHandler \<Rightarrow> string list \<Rightarrow> string list \<times> ExpressionAttributeHandler" where
  "processParts h [] = ([], h)"
| "processParts h (part # parts) =
     (case processPart h part of (p, h') \<Rightarrow>
        (case processParts h' parts of (ps, h'') \<Rightarrow> (p # ps, h'')))"

definition getExpressionAttributeName :: "ExpressionAttributeHandler \<Rightarrow> string \<Rightarrow> string \<times> ExpressionAttributeHandler" where
  "getExpressionAttributeName h attributeName =
     (case processParts h (split_on CHR ''.'' attributeName) of
        (processedParts, h') \<Rightarrow> (join ''.'' processedParts, h'))"

text \<open>\<^verbatim>\<open>undefined\<close> when no name was substituted.\<close>

definition getExpressionAttributeNames :: "ExpressionAttributeHandler \<Rightarrow> string js_object option" where
  "getExpressionAttributeNames h =
     (if length (expressionAttributeNames h) > 0 then Some (expressionAttributeNames h) else None)"

definition reset :: "ExpressionAttributeHandler \<Rightarrow> ExpressionAttributeHandler" where
  "reset h = h\<lparr>expressionAttributeNames := [], attributeNameMap := [], nameCount := 0\<rparr>"

fun resolveAll :: "ExpressionAttributeHandler \<Rightarrow> string list \<Rightarrow> string list \<times> ExpressionAttributeHandler" where
  "resolveAll h [] = ([], h)"
| "resolveAll h (a # as) =
     (case getExpressionAttributeName h a of (p, h') \<Rightarrow>
        (case resolveAll h' as of (ps, h'') \<Rightarrow> (p # ps, h'')))"

definition processProjectionExpression ::
  "ExpressionAttributeHandler \<Rightarrow> string list \<Rightarrow> (string \<times> string js_object option) \<times> ExpressionAttributeHandler" where
  "processProjectionExpression h attributes =
     (case resolveAll h attributes of
        (processedAttributes, h') \<Rightarrow>
          ((join '', '' processedAttributes, getExpressionAttributeNames h'), h'))"

text \<open>
  The regular expressions of \<^verbatim>\<open>processKeyConditionExpression\<close>, written out as scans. A
  position of the text is given by the character before it (\<open>None\<close> at the start) and
  the rest of the text from it.
\<close>

text \<open>\<^verbatim>\<open>\b\<close>: exactly one of the two neighbours is a word character.\<close>

definition is_word_opt :: "char option \<Rightarrow> bool" where
  "is_word_opt c = (case c of None \<Rightarrow> False | Some x \<Rightarrow> is_word_char x)"

definition word_boundary :: "char option \<Rightarrow> string \<Rightarrow> bool" where
  "word_boundary prev rest =
     (is_word_opt prev \<noteq> is_word_opt (case rest of [] \<Rightarrow> None | x # _ \<Rightarrow> Some x))"

text \<open>\<^verbatim>\<open>(?<![:# ])\<close>\<close>

definition lookbehind_ok :: "char option \<Rightarrow> bool" where
  "lookbehind_ok prev = (prev \<noteq> Some CHR '':'' \<and> prev \<noteq> Some CHR ''#'' \<and> prev \<noteq> Some CHR '' '')"

text \<open>\<^verbatim>\<open>[a-zA-Z_]\<close>\<close>

definition is_ident_start :: "char \<Rightarrow> bool" where
  "is_ident_start c = (is_lower c \<or> is_upper c \<or> c = CHR ''_'')"

text \<open>
  \<^verbatim>\<open>expression.match(/(?<![:# ])\b[a-zA-Z_][a-zA-Z0-9_]*\b/g) || []\<close>: at each position,
  left to right, a match needs the look-behind, a word boundary and an identifier start; the
  greedy \<^verbatim>\<open>[a-zA-Z0-9_]*\<close> then takes the whole run of word characters (only there does
  the closing \<^verbatim>\<open>\b\<close> hold), and the scan goes on after the match.
\<close>

function attributeMatches :: "char option \<Rightarrow> string \<Rightarrow> string list" where
  "attributeMatches prev [] = []"
| "attributeMatches prev (c # cs) =
     (if lookbehind_ok prev \<and> word_boundary prev (c # cs) \<and> is_ident_start c
      then (c # takeWhile is_word_char cs) #
             attributeMatches (Some (last (c # takeWhile is_word_char cs))) (dropWhile is_word_char cs)
      else attributeMatches (Some c) cs)"
  by pat_completeness auto
termination
proof (relation "measure (\<lambda>(prev, s). length s)")
  show "wf (measure (\<lambda>(prev, s). length s))" by simp
next
  fix prev :: "char option" and c :: char and cs :: string
  have "length (dropWhile is_word_char cs) \<le> length cs"
    by (rule length_dropWhile_le)
  then show "((Some (last (c # takeWhile is_word_char cs)), dropWhile is_word_char cs), (prev, c # cs))
      \<in> measure (\<lambda>(prev, s). length s)"
    by simp
next
  fix prev :: "char option" and c :: char and cs :: string
  show "((Some c, cs), (prev, c # cs)) \<in> measure (\<lambda>(prev, s). length s)" by simp
qed

declare attributeMatches.simps [simp del]

text \<open>\<^verbatim>\<open>\s\<close> on ASCII text.\<close>

definition is_space :: "char \<Rightarrow> bool" where
  "is_space c = (c \<in> set [CHR '' '', CHR 0x09, CHR 0x0A, CHR 0x0B, CHR 0x0C, CHR 0x0D])"

text \<open>\<^verbatim>\<open>(?!\s*[=<>])\<close>: the look-ahead \<^verbatim>\<open>\s*[=<>]\<close> matches exactly when the first
  character after the white space is one of the three.\<close>

definition lookahead_ok :: "string \<Rightarrow> bool" where
  "lookahead_ok rest =
     (case dropWhile is_space rest of
        [] \<Rightarrow> True
      | x # _ \<Rightarrow> x \<noteq> CHR ''='' \<and> x \<noteq> CHR ''<'' \<and> x \<noteq> CHR ''>'')"

text \<open>
  \<^verbatim>\<open>s.replace(new RegExp(`\\b${attr}\\b(?!\\s*[=<>])`, 'g'), placeholder)\<close> for an
  \<open>attr\<close> that is one of the matches above (not empty, word characters only, so the
  pattern has no metacharacter of its own) and a placeholder without \<^verbatim>\<open>$\<close>.
\<close>

definition attr_matches_here :: "string \<Rightarrow> char option \<Rightarrow> string \<Rightarrow> bool" where
  "attr_matches_here attr prev s =
     (attr \<noteq> [] \<and> take (length attr) s = attr \<and>
      word_boundary prev s \<and>
      word_boundary (Some (last attr)) (drop (length attr) s) \<and>
      lookahead_ok (drop (length attr) s))"

function replaceAttr :: "string \<Rightarrow> string \<Rightarrow> char option \<Rightarrow> string \<Rightarrow> string" where
  "replaceAttr attr placeholder prev [] = []"
| "replaceAttr attr placeholder prev (c # cs) =
     (if attr_matches_here attr prev (c # cs)
      then placeholder @
             replaceAttr attr placeholder (Some (last attr)) (drop (length attr) (c # cs))
      else c # replaceAttr attr placeholder (Some c) cs)"
  by pat_completeness auto
termination
proof (relation "measure (\<lambda>(attr, placeholder, prev, s). length s)")
  show "wf (measure (\<lambda>(attr, placeholder, prev, s). length s))" by simp
next
  fix attr placeholder :: string and prev :: "char option" and c :: char and cs :: string
  assume "attr_matches_here attr prev (c # cs)"
  then have "attr \<noteq> []" by (simp add: attr_matches_here_def)
  then have "length (drop (length attr) (c # cs)) < length (c # cs)"
    by (cases attr) simp_all
  then show "((attr, placeholder, Some (last attr), drop (length attr) (c # cs)),
       (attr, placeholder, prev, c # cs)) \<in> measure (\<lambda>(attr, placeholder, prev, s). length s)"
    by simp
next
  fix attr placeholder :: string and prev :: "char option" and c :: char and cs :: string
  show "((attr, placeholder, Some c, cs), (attr, placeholder, prev, c # cs))
      \<in> measure (\<lambda>(attr, placeholder, prev, s). length s)"
    by simp
qed

declare replaceAttr.simps [simp del]

text \<open>The \<^verbatim>\<open>for (const attr of attributeMatches)\<close> loop: the processed expression and the
  handler after it.\<close>

fun rewriteMatches :: "ExpressionAttributeHandler \<Rightarrow> string \<Rightarrow> string list \<Rightarrow> string \<times> ExpressionAttributeHandler" where
  "rewriteMatches h processedExpression [] = (processedExpression, h)"
| "rewriteMatches h processedExpression (attr # attrs) =
     (if isReservedWord attr then
        (case getExpressionAttributeName h attr of
           (placeholder, h') \<Rightarrow>
             rewriteMatches h' (replaceAttr attr placeholder None processedExpression) attrs)
      else rewriteMatches h processedExpression attrs)"

record KeyConditionResult =
  keyConditionExpression :: string
  kcr_expressionAttributeNames :: "string js_object option"

definition processKeyConditionExpression ::
  "ExpressionAttributeHandler \<Rightarrow> string \<Rightarrow> KeyConditionResult \<times> ExpressionAttributeHandler" where
  "processKeyConditionExpression h expr =
     (case rewriteMatches h expr (attributeMatches None expr) of
        (processedExpression, h') \<Rightarrow>
          (\<lparr>keyConditionExpression = processedExpression,
            kcr_expressionAttributeNames = getExpressionAttributeNames h'\<rparr>, h'))"

text \<open>The methods of a handler that resolve names, as calls a caller can make in any
  order, and the handler after a sequence of them.\<close>

datatype handler_call =
    GetExpressionAttributeName string
  | ProcessProjectionExpression "string list"
  | ProcessKeyConditionExpression string

fun handler_step :: "ExpressionAttributeHandler \<Rightarrow> handler_call \<Rightarrow> ExpressionAttributeHandler" where
  "handler_step h (GetExpressionAttributeName a) = snd (getExpressionAttributeName h a)"
| "handler_step h (ProcessProjectionExpression as) = snd (processProjectionExpression h as)"
| "handler_step h (ProcessKeyConditionExpression e) = snd (processKeyConditionExpression h e)"

definition handler_after :: "ExpressionAttributeHandler \<Rightarrow> handler_call list \<Rightarrow> ExpressionAttributeHandler" where
  "handler_after h calls = foldl handler_step h calls"

text \<open>Every placeholder the handler has memoised is \<^verbatim>\<open>#n\<close> followed by a counter value
  already issued.\<close>

definition names_wf :: "ExpressionAttributeHandler \<Rightarrow> bool" where
  "names_wf h =
     (\<forall>a p. map_of (attributeNameMap h) a = Some p \<longrightarrow>
        (\<exists>k. 1 \<le> k \<and> k \<le> nameCount h \<and> p = ''#n'' @ show_nat k))"

text \<open>A later handler has kept every placeholder an earlier one had memoised, and its counter
  is not smaller.\<close>

definition handler_extends :: "ExpressionAttributeHandler \<Rightarrow> ExpressionAttributeHandler \<Rightarrow> bool" where
  "handler_extends h h' =
     (nameCount h \<le> nameCount h' \<and>
      (\<forall>a p. map_of (attributeNameMap h) a = Some p \<longrightarrow> map_of (attributeNameMap h') a = Some p))"

section \<open>Update builder (update-builder.ts) and update compiler (update.ts)\<close>

datatype UpdateOperationType = SET | REMOVE | ADD | DELETE

text \<open>The string value of an enum member.\<close>

fun operation_name :: "UpdateOperationType \<Rightarrow> string" where
  "operation_name SET = ''SET''"
| "operation_name REMOVE = ''REMOVE''"
| "operation_name ADD = ''ADD''"
| "operation_name DELETE = ''DELETE''"

text \<open>A missing \<^verbatim>\<open>value\<close> is \<^verbatim>\<open>undefined\<close>.\<close>

record FieldUpdate =
  fu_field :: string
  fu_value :: jsval
  fu_operation :: UpdateOperationType

record UpdateBuilder =
  updates :: "FieldUpdate list"

definition new_UpdateBuilder :: UpdateBuilder where
  "new_UpdateBuilder = \<lparr>updates = []\<rparr>"

definition MAX_UPDATES :: nat where
  "MAX_UPDATES = 100"

text \<open>The count check and the push that end every method of the builder. The builder's
  private \<^verbatim>\<open>validateFieldName\<close> and \<^verbatim>\<open>validateValue\<close> are the query builder's, word for
  word.\<close>

definition push_update :: "UpdateBuilder \<Rightarrow> string \<Rightarrow> jsval \<Rightarrow> UpdateOperationType \<Rightarrow> error + UpdateBuilder" where
  "push_update b field v opn =
     (if length (updates b) \<ge> MAX_UPDATES
      then Inl (Error ''Maximum number of updates (100) exceeded'')
      else Inr (b\<lparr>updates := updates b @ [\<lparr>fu_field = field, fu_value = v, fu_operation = opn\<rparr>]\<rparr>))"

definition set_u :: "UpdateBuilder \<Rightarrow> string \<Rightarrow> jsval \<Rightarrow> error + UpdateBuilder" where
  "set_u b field v =
     (case validateFieldName field of Inl e \<Rightarrow> Inl e
      | Inr _ \<Rightarrow> (case validateValue v of Inl e \<Rightarrow> Inl e
      | Inr _ \<Rightarrow> push_update b field v SET))"

definition remove_u :: "UpdateBuilder \<Rightarrow> string \<Rightarrow> error + UpdateBuilder" where
  "remove_u b field =
     (case validateFieldName field of Inl e \<Rightarrow> Inl e
      | Inr _ \<Rightarrow> push_update b field JUndefined REMOVE)"

definition addToSet :: "UpdateBuilder \<Rightarrow> string \<Rightarrow> jsval \<Rightarrow> error + UpdateBuilder" where
  "addToSet b field v =
     (case validateFieldName field of Inl e \<Rightarrow> Inl e
      | Inr _ \<Rightarrow> (case validateValue v of Inl e \<Rightarrow> Inl e
      | Inr _ \<Rightarrow> push_update b field v ADD))"

definition removeFromSet :: "UpdateBuilder \<Rightarrow> string \<Rightarrow> jsval \<Rightarrow> error + UpdateBuilder" where
  "removeFromSet b field v =
     (case validateFieldName field of Inl e \<Rightarrow> Inl e
      | Inr _ \<Rightarrow> (case validateValue v of Inl e \<Rightarrow> Inl e
      | Inr _ \<Rightarrow> push_update b field v DELETE))"

definition increment :: "UpdateBuilder \<Rightarrow> string \<Rightarrow> jsval \<Rightarrow> error + UpdateBuilder" where
  "increment b field v =
     (case validateFieldName field of Inl e \<Rightarrow> Inl e
      | Inr _ \<Rightarrow> if not_valid_number v then Inl (Error ''Value must be a valid number'')
                 else push_update b field v ADD)"

definition decrement :: "UpdateBuilder \<Rightarrow> string \<Rightarrow> jsval \<Rightarrow> error + UpdateBuilder" where
  "decrement b field v =
     (case validateFieldName field of Inl e \<Rightarrow> Inl e
      | Inr _ \<Rightarrow> (case v of
          JNum n \<Rightarrow> push_update b field (JNum (- n)) ADD
        | _ \<Rightarrow> Inl (Error ''Value must be a valid number'')))"

text \<open>\<^verbatim>\<open>{ __listAppend: true, items: [value] }\<close> and
  \<^verbatim>\<open>{ __listPrepend: true, items: [value] }\<close>\<close>

definition listAppend_marker :: "jsval \<Rightarrow> jsval" where
  "listAppend_marker v = JObj [(''__listAppend'', JBool True), (''items'', JArr [v])]"




definition build_updates :: "UpdateBuilder \<Rightarrow> error + FieldUpdate list" where
  "build_updates b =
     (if updates b = [] then Inl (Error ''No updates specified'') else Inr (updates b))"

text \<open>
  \<^verbatim>\<open>updateItem\<close>, up to the command it sends. The \<^verbatim>\<open>reduce\<close> that groups the updates
  builds an object keyed by the operation; \<^verbatim>\<open>Object.entries\<close> lists its keys in the
  order of their first insertion.
\<close>

fun group_push :: "(UpdateOperationType \<times> FieldUpdate list) list \<Rightarrow> FieldUpdate \<Rightarrow>
    (UpdateOperationType \<times> FieldUpdate list) list" where
  "group_push [] u = [(fu_operation u, [u])]"
| "group_push ((k, us) # acc) u =
     (if k = fu_operation u then (k, us @ [u]) # acc else (k, us) # group_push acc u)"

definition groupedUpdates :: "FieldUpdate list \<Rightarrow> (UpdateOperationType \<times> FieldUpdate list) list" where
  "groupedUpdates updateArray = foldl group_push [] updateArray"

text \<open>The state the callbacks share: the expression handler, \<^verbatim>\<open>expressionValues\<close> and
  \<^verbatim>\<open>valueCounter\<close>.\<close>

type_synonym compile_state = "ExpressionAttributeHandler \<times> jsval js_object \<times> nat"

text \<open>\<^verbatim>\<open>typeof update.value === 'object' && update.value !== null\<close> and the marker
  property is truthy.\<close>

definition has_marker :: "jsval \<Rightarrow> string \<Rightarrow> bool" where
  "has_marker v m = (typeof_object v \<and> v \<noteq> JNull \<and> truthy (js_prop v m))"

text \<open>The callback of \<^verbatim>\<open>updates.map\<close>: the clause of one update and the state after it.
  \<open>opn\<close> is the key of the group the update stands in.\<close>

definition compileUpdate :: "UpdateOperationType \<Rightarrow> compile_state \<Rightarrow> FieldUpdate \<Rightarrow> string \<times> compile_state" where
  "compileUpdate opn st update =
     (case st of (h, expressionValues, valueCounter) \<Rightarrow>
       (case getExpressionAttributeName h (fu_field update) of (fieldName, h') \<Rightarrow>
         if fu_value update \<noteq> JUndefined then
           (let valueCounter' = valueCounter + 1;
                placeholder = '':val'' @ show_nat valueCounter';
                itemsPlaceholder = '':items'' @ show_nat valueCounter';
                emptyListPlaceholder = '':empty'' @ show_nat valueCounter'
            in if fu_operation update = SET \<and> has_marker (fu_value update) ''__listAppend'' then
                 (fieldName @ '' = list_append(if_not_exists('' @ fieldName @ '', '' @
                    emptyListPlaceholder @ ''), '' @ itemsPlaceholder @ '')'',
                  (h', AList.update emptyListPlaceholder (JArr [])
                         (AList.update itemsPlaceholder (js_prop (fu_value update) ''items'')
                            expressionValues),
                   valueCounter'))
               else if fu_operation update = SET \<and> has_marker (fu_value update) ''__listPrepend'' then
                 (fieldName @ '' = list_append('' @ itemsPlaceholder @ '', if_not_exists('' @
                    fieldName @ '', '' @ emptyListPlaceholder @ ''))'',
                  (h', AList.update emptyListPlaceholder (JArr [])
                         (AList.update itemsPlaceholder (js_prop (fu_value update) ''items'')
                            expressionValues),
                   valueCounter'))
               else
                 ((if opn = SET then fieldName @ '' = '' @ placeholder
                   else if opn = ADD \<or> opn = DELETE then fieldName @ '' '' @ placeholder
                   else fieldName),
                  (h', AList.update placeholder (fu_value update) expressionValues, valueCounter')))
         else (fieldName, (h', expressionValues, valueCounter))))"

fun compileUpdates :: "UpdateOperationType \<Rightarrow> compile_state \<Rightarrow> FieldUpdate list \<Rightarrow> string list \<times> compile_state" where
  "compileUpdates opn st [] = ([], st)"
| "compileUpdates opn st (u # us) =
     (case compileUpdate opn st u of (part, st') \<Rightarrow>
        (case compileUpdates opn st' us of (parts, st'') \<Rightarrow> (part # parts, st'')))"

text \<open>The \<^verbatim>\<open>forEach\<close> over the groups: the expression parts pushed and the state after
  them.\<close>

fun compileGroups :: "compile_state \<Rightarrow> (UpdateOperationType \<times> FieldUpdate list) list \<Rightarrow> string list \<times> compile_state" where
  "compileGroups st [] = ([], st)"
| "compileGroups st ((opn, us) # groups) =
     (if us = [] then compileGroups st groups
      else (case compileUpdates opn st us of (updateParts, st') \<Rightarrow>
        (case compileGroups st' groups of (expressionParts, st'') \<Rightarrow>
           ((operation_name opn @ '' '' @ join '', '' updateParts) # expressionParts, st''))))"

record UpdateOptions =
  uo_condition :: "(string \<times> jsval js_object option) option"
  uo_returnValues :: "string option"

definition no_options :: UpdateOptions where
  "no_options = \<lparr>uo_condition = None, uo_returnValues = None\<rparr>"

record UpdateCommandInput =
  UpdateExpression :: string
  ExpressionAttributeNames :: "string js_object option"
  ExpressionAttributeValues :: "jsval js_object option"
  ConditionExpression :: "string option"
  ReturnValues :: "string option"

text \<open>\<^verbatim>\<open>Object.entries(options.condition.values).forEach(...)\<close>\<close>

definition merge_condition_values :: "UpdateOptions \<Rightarrow> jsval js_object \<Rightarrow> jsval js_object" where
  "merge_condition_values options expressionValues =
     (case uo_condition options of
        Some (_, Some vs) \<Rightarrow> foldl (\<lambda>acc (k, v). AList.update k v acc) expressionValues vs
      | _ \<Rightarrow> expressionValues)"

definition updateItem_command :: "FieldUpdate list \<Rightarrow> UpdateOptions \<Rightarrow> UpdateCommandInput" where
  "updateItem_command updateArray options =
     (case compileGroups (new_ExpressionAttributeHandler, [], 0) (groupedUpdates updateArray) of
        (expressionParts, (h, expressionValues, valueCounter)) \<Rightarrow>
          (let expressionValues' = merge_condition_values options expressionValues
           in \<lparr>UpdateExpression = join '' '' expressionParts,
               ExpressionAttributeNames = getExpressionAttributeNames h,
               ExpressionAttributeValues =
                 (if length expressionValues' > 0 then Some expressionValues' else None),
               ConditionExpression = map_option fst (uo_condition options),
               ReturnValues = uo_returnValues options\<rparr>))"

text \<open>
  The compilation as the specification words it, for comparison with the code: group the
  updates by verb (the groups in the order their verbs first occur, the members of a group in
  the order they were added); resolve each member's field name; give each value the next
  counter value \<open>N\<close>; for a SET whose value carries the append marker emit
  \<^verbatim>\<open>field = list_append(if_not_exists(field, :emptyN), :itemsN)\<close>, for one with the prepend
  marker the same with the two arguments of \<^verbatim>\<open>list_append\<close> exchanged; otherwise format
  \<^verbatim>\<open>field = :valN\<close> for SET, \<^verbatim>\<open>field :valN\<close> for ADD and DELETE, and the bare field for
  REMOVE; a member without a value is the bare field and takes no counter value; join the
  clauses of a verb with a comma and a space after the verb, and the verbs with one space.
\<close>

function spec_group_by_verb :: "FieldUpdate list \<Rightarrow> (UpdateOperationType \<times> FieldUpdate list) list" where
  "spec_group_by_verb [] = []"
| "spec_group_by_verb (u # us) =
     (fu_operation u, u # filter (\<lambda>x. fu_operation x = fu_operation u) us) #
       spec_group_by_verb (filter (\<lambda>x. fu_operation x \<noteq> fu_operation u) us)"
  by pat_completeness auto
termination
  by (relation "measure length") (simp_all add: less_Suc_eq_le)

definition spec_clause :: "UpdateOperationType \<Rightarrow> string \<Rightarrow> nat \<Rightarrow> string" where
  "spec_clause opn f n =
     (case opn of
        SET \<Rightarrow> f @ '' = :val'' @ show_nat n
      | ADD \<Rightarrow> f @ '' :val'' @ show_nat n
      | DELETE \<Rightarrow> f @ '' :val'' @ show_nat n
      | REMOVE \<Rightarrow> f)"

definition spec_append_clause :: "string \<Rightarrow> nat \<Rightarrow> string" where
  "spec_append_clause f n =
     f @ '' = list_append(if_not_exists('' @ f @ '', :empty'' @ show_nat n @ ''), :items'' @
       show_nat n @ '')''"

definition spec_prepend_clause :: "string \<Rightarrow> nat \<Rightarrow> string" where
  "spec_prepend_clause f n =
     f @ '' = list_append(:items'' @ show_nat n @ '', if_not_exists('' @ f @ '', :empty'' @
       show_nat n @ ''))''"

definition spec_member_clause :: "FieldUpdate \<Rightarrow> string \<Rightarrow> nat \<Rightarrow> string" where
  "spec_member_clause u f n =
     (if fu_operation u = SET \<and> has_marker (fu_value u) ''__listAppend''
        then spec_append_clause f n
      else if fu_operation u = SET \<and> has_marker (fu_value u) ''__listPrepend''
        then spec_prepend_clause f n
      else spec_clause (fu_operation u) f n)"

definition spec_member :: "ExpressionAttributeHandler \<Rightarrow> nat \<Rightarrow> FieldUpdate \<Rightarrow>
    string \<times> ExpressionAttributeHandler \<times> nat" where
  "spec_member h n u =
     (case getExpressionAttributeName h (fu_field u) of (f, h') \<Rightarrow>
        if fu_value u = JUndefined then (f, h', n)
        else (spec_member_clause u f (n + 1), h', n + 1))"

fun spec_clauses :: "ExpressionAttributeHandler \<Rightarrow> nat \<Rightarrow> FieldUpdate list \<Rightarrow>
    string list \<times> ExpressionAttributeHandler \<times> nat" where
  "spec_clauses h n [] = ([], h, n)"
| "spec_clauses h n (u # us) =
     (case spec_member h n u of (c, h', n') \<Rightarrow>
        (case spec_clauses h' n' us of (cs, r) \<Rightarrow> (c # cs, r)))"

fun spec_verbs :: "ExpressionAttributeHandler \<Rightarrow> nat \<Rightarrow> (UpdateOperationType \<times> FieldUpdate list) list \<Rightarrow> string list" where
  "spec_verbs h n [] = []"
| "spec_verbs h n ((opn, us) # groups) =
     (case spec_clauses h n us of (cs, h', n') \<Rightarrow>
        (operation_name opn @ '' '' @ join '', '' cs) # spec_verbs h' n' groups)"

definition spec_update_expression :: "FieldUpdate list \<Rightarrow> string" where
  "spec_update_expression us =
     join '' '' (spec_verbs new_ExpressionAttributeHandler 0 (spec_group_by_verb us))"


definition state_after :: "(UpdateOperationType \<times> FieldUpdate) list \<Rightarrow> compile_state" where
  "state_after steps =
     foldl (\<lambda>st (opn, u). snd (compileUpdate opn st u)) (new_ExpressionAttributeHandler, [], 0) steps"

text \<open>Every key of the value map is a placeholder of a counter value already issued.\<close>

definition values_bounded :: "jsval js_object \<Rightarrow> nat \<Rightarrow> bool" where
  "values_bounded vals n =
     (\<forall>k \<in> fst ` set vals. \<exists>j. 1 \<le> j \<and> j \<le> n \<and>
        (k = '':val'' @ show_nat j \<or> k = '':items'' @ show_nat j \<or> k = '':empty'' @ show_nat j))"

section \<open>Scan builder (scan-builder.ts) and its validators (error-handler.ts)\<close>

text \<open>
  The validators read \<^verbatim>\<open>process.env.NODE_ENV === 'test'\<close>; that reading is the parameter
  \<open>test_env\<close> of everything below. \<^verbatim>\<open>s.trim() === ''\<close> holds when \<open>s\<close> is white
  space only.
\<close>

definition is_blank :: "string \<Rightarrow> bool" where
  "is_blank s = list_all is_space s"

definition validateString :: "jsval \<Rightarrow> string \<Rightarrow> error + unit" where
  "validateString v errorMessage =
     (case v of
        JStr s \<Rightarrow> if is_blank s then Inl (Error errorMessage) else Inr ()
      | _ \<Rightarrow> Inl (Error errorMessage))"

definition validateNumber :: "jsval \<Rightarrow> string \<Rightarrow> error + unit" where
  "validateNumber v errorMessage =
     (if not_valid_number v then Inl (Error errorMessage) else Inr ())"

definition validateFieldName_eh :: "bool \<Rightarrow> string \<Rightarrow> error + unit" where
  "validateFieldName_eh test_env fieldName =
     (if is_blank fieldName then Inl (Error ''Field name must be a non-empty string'')
      else if test_env then Inr ()
      else if \<not> all_word_chars fieldName
        then Inl (Error ''Field name can only contain alphanumeric characters and underscores'')
      else Inr ())"

record ScanBuilder =
  filterExpressions :: "string list"
  sb_expressionValues :: "jsval js_object"
  expressionNames :: "string js_object"
  sb_selectedFields :: "string list option"
  limitValue :: "int option"
  indexNameValue :: "string option"
  consistentReadValue :: "bool option"
  startKeyValue :: "jsval js_object option"
  totalSegmentsValue :: "int option"
  segmentValue :: "int option"
  valueCounter :: nat

definition new_ScanBuilder :: ScanBuilder where
  "new_ScanBuilder =
     \<lparr>filterExpressions = [], sb_expressionValues = [], expressionNames = [],
      sb_selectedFields = None, limitValue = None, indexNameValue = None,
      consistentReadValue = None, startKeyValue = None, totalSegmentsValue = None,
      segmentValue = None, valueCounter = 0\<rparr>"

text \<open>\<^verbatim>\<open>getExpressionName\<close>: the name to write into the fragment and the builder after
  it. \<^verbatim>\<open>/[^a-zA-Z0-9_]/.test(field)\<close> finds a character that is not a word character.\<close>

definition getExpressionName :: "bool \<Rightarrow> ScanBuilder \<Rightarrow> string \<Rightarrow> string \<times> ScanBuilder" where
  "getExpressionName test_env b field =
     (if test_env \<and> field \<in> set [''name'', ''age'', ''status'', ''interests'', ''email'', ''deletedAt'']
      then (field, b)
      else if isReserved field \<or> list_ex (\<lambda>c. \<not> is_word_char c) field then
        (let nameKey = ''#n'' @ show_nat (length (expressionNames b))
         in (nameKey, b\<lparr>expressionNames := AList.update nameKey field (expressionNames b)\<rparr>))
      else (field, b))"

text \<open>\<^verbatim>\<open>`:value${this.valueCounter++}`\<close>: the key and the builder with the counter
  advanced.\<close>

definition next_valueKey :: "ScanBuilder \<Rightarrow> string \<times> ScanBuilder" where
  "next_valueKey b = ('':value'' @ show_nat (valueCounter b), b\<lparr>valueCounter := valueCounter b + 1\<rparr>)"

definition addCondition :: "bool \<Rightarrow> ScanBuilder \<Rightarrow> string \<Rightarrow> string \<Rightarrow> jsval \<Rightarrow> error + ScanBuilder" where
  "addCondition test_env b field operator v =
     (case validateFieldName_eh test_env field of Inl e \<Rightarrow> Inl e
      | Inr _ \<Rightarrow>
        (case getExpressionName test_env b field of (nameKey, b1) \<Rightarrow>
        (case next_valueKey b1 of (valueKey, b2) \<Rightarrow>
           Inr (b2\<lparr>filterExpressions := filterExpressions b2 @ [nameKey @ '' '' @ operator @ '' '' @ valueKey],
                   sb_expressionValues := AList.update valueKey v (sb_expressionValues b2)\<rparr>))))"

text \<open>\<^verbatim>\<open>beginsWith\<close> and \<^verbatim>\<open>contains\<close> share one body up to the function name written
  into the fragment.\<close>

definition addFunctionCondition :: "string \<Rightarrow> bool \<Rightarrow> ScanBuilder \<Rightarrow> string \<Rightarrow> jsval \<Rightarrow> error + ScanBuilder" where
  "addFunctionCondition fname test_env b field v =
     (case validateString v ''Value must be a string'' of Inl e \<Rightarrow> Inl e
      | Inr _ \<Rightarrow>
        (case validateFieldName_eh test_env field of Inl e \<Rightarrow> Inl e
         | Inr _ \<Rightarrow>
           (case getExpressionName test_env b field of (nameKey, b1) \<Rightarrow>
           (case next_valueKey b1 of (valueKey, b2) \<Rightarrow>
              Inr (b2\<lparr>filterExpressions := filterExpressions b2 @ [fname @ ''('' @ nameKey @ '', '' @ valueKey @ '')''],
                      sb_expressionValues := AList.update valueKey v (sb_expressionValues b2)\<rparr>)))))"

definition between_scan :: "bool \<Rightarrow> ScanBuilder \<Rightarrow> string \<Rightarrow> jsval \<Rightarrow> jsval \<Rightarrow> error + ScanBuilder" where
  "between_scan test_env b field lowerValue upperValue =
     (case validateFieldName_eh test_env field of Inl e \<Rightarrow> Inl e
      | Inr _ \<Rightarrow>
        (case getExpressionName test_env b field of (nameKey, b1) \<Rightarrow>
        (case next_valueKey b1 of (lowerValueKey, b2) \<Rightarrow>
        (case next_valueKey b2 of (upperValueKey, b3) \<Rightarrow>
           Inr (b3\<lparr>filterExpressions := filterExpressions b3 @
                      [nameKey @ '' BETWEEN '' @ lowerValueKey @ '' AND '' @ upperValueKey],
                   sb_expressionValues := AList.update upperValueKey upperValue
                      (AList.update lowerValueKey lowerValue (sb_expressionValues b3))\<rparr>)))))"

text \<open>\<^verbatim>\<open>attributeExists\<close> and \<^verbatim>\<open>attributeNotExists\<close> share one body up to the function
  name.\<close>

definition addAttributeCondition :: "string \<Rightarrow> bool \<Rightarrow> ScanBuilder \<Rightarrow> string \<Rightarrow> error + ScanBuilder" where
  "addAttributeCondition fname test_env b field =
     (case validateFieldName_eh test_env field of Inl e \<Rightarrow> Inl e
      | Inr _ \<Rightarrow>
        (case getExpressionName test_env b field of (nameKey, b1) \<Rightarrow>
           Inr (b1\<lparr>filterExpressions := filterExpressions b1 @ [fname @ ''('' @ nameKey @ '')'']\<rparr>)))"

definition filter_scan :: "ScanBuilder \<Rightarrow> string \<Rightarrow> jsval js_object option \<Rightarrow> error + ScanBuilder" where
  "filter_scan b expr vals =
     (case validateString (JStr expr) ''Expression must be a non-empty string'' of Inl e \<Rightarrow> Inl e
      | Inr _ \<Rightarrow>
        (let b1 = b\<lparr>filterExpressions := filterExpressions b @ [''('' @ expr @ '')'']\<rparr>
         in case vals of
              None \<Rightarrow> Inr b1
            | Some vs \<Rightarrow>
                Inr (b1\<lparr>sb_expressionValues :=
                          foldl (\<lambda>acc (k, v). AList.update k v acc) (sb_expressionValues b1) vs\<rparr>)))"

fun validate_fields_eh :: "bool \<Rightarrow> string list \<Rightarrow> error + unit" where
  "validate_fields_eh test_env [] = Inr ()"
| "validate_fields_eh test_env (f # fs) =
     (case validateFieldName_eh test_env f of Inl e \<Rightarrow> Inl e | Inr _ \<Rightarrow> validate_fields_eh test_env fs)"

fun processFields :: "bool \<Rightarrow> ScanBuilder \<Rightarrow> string list \<Rightarrow> string list \<times> ScanBuilder" where
  "processFields test_env b [] = ([], b)"
| "processFields test_env b (f # fs) =
     (case getExpressionName test_env b f of (n, b1) \<Rightarrow>
        (case processFields test_env b1 fs of (ns, b2) \<Rightarrow> (n # ns, b2)))"

definition selectFields_scan :: "bool \<Rightarrow> ScanBuilder \<Rightarrow> string list \<Rightarrow> error + ScanBuilder" where
  "selectFields_scan test_env b fs =
     (if fs = [] then Inl (Error ''Fields must be a non-empty array'')
      else case validate_fields_eh test_env fs of Inl e \<Rightarrow> Inl e
           | Inr _ \<Rightarrow>
             (case processFields test_env b fs of (processedFields, b1) \<Rightarrow>
                Inr (b1\<lparr>sb_selectedFields := Some processedFields\<rparr>)))"

definition withLimit_scan :: "ScanBuilder \<Rightarrow> jsval \<Rightarrow> error + ScanBuilder" where
  "withLimit_scan b l =
     (case l of
        JNum n \<Rightarrow> if n \<le> 0 then Inl (Error ''Limit must be greater than 0'')
                  else Inr (b\<lparr>limitValue := Some n\<rparr>)
      | _ \<Rightarrow> Inl (Error ''Limit must be a positive number''))"

definition usingIndex_scan :: "ScanBuilder \<Rightarrow> string \<Rightarrow> error + ScanBuilder" where
  "usingIndex_scan b name =
     (case validateString (JStr name) ''Index name must be a non-empty string'' of Inl e \<Rightarrow> Inl e
      | Inr _ \<Rightarrow> Inr (b\<lparr>indexNameValue := Some name\<rparr>))"

definition withConsistentRead :: "ScanBuilder \<Rightarrow> bool \<Rightarrow> error + ScanBuilder" where
  "withConsistentRead b consistent = Inr (b\<lparr>consistentReadValue := Some consistent\<rparr>)"

definition withStartKey :: "ScanBuilder \<Rightarrow> jsval js_object \<Rightarrow> error + ScanBuilder" where
  "withStartKey b startKey =
     (if startKey = [] then Inl (Error ''Start key must be a non-empty object'')
      else Inr (b\<lparr>startKeyValue := Some startKey\<rparr>))"

definition withParallelScan :: "ScanBuilder \<Rightarrow> jsval \<Rightarrow> jsval \<Rightarrow> error + ScanBuilder" where
  "withParallelScan b totalSegments segment =
     (case totalSegments of
        JNum t \<Rightarrow>
          (case segment of
             JNum s \<Rightarrow>
               if t \<le> 0 then Inl (Error ''Total segments must be greater than 0'')
               else if s < 0 \<or> s \<ge> t
                 then Inl (Error (''Segment must be between 0 and '' @ show_nat (nat (t - 1))))
               else Inr (b\<lparr>totalSegmentsValue := Some t, segmentValue := Some s\<rparr>)
           | _ \<Rightarrow> Inl (Error ''Segment must be a non-negative number''))
      | _ \<Rightarrow> Inl (Error ''Total segments must be a positive number''))"

record ScanOptions =
  so_filter :: "string option"
  so_expressionValues :: "jsval js_object option"
  so_expressionNames :: "string js_object option"
  so_attributes :: "string list option"
  so_limit :: "int option"
  so_indexName :: "string option"
  so_consistent :: "bool option"
  so_startKey :: "jsval js_object option"
  so_totalSegments :: "int option"
  so_segment :: "int option"

definition build_scan :: "ScanBuilder \<Rightarrow> ScanOptions" where
  "build_scan b =
     \<lparr>so_filter =
        (if length (filterExpressions b) > 0 then Some (join '' AND '' (filterExpressions b)) else None),
      so_expressionValues =
        (if length (sb_expressionValues b) > 0 then Some (sb_expressionValues b) else None),
      so_expressionNames =
        (if length (expressionNames b) > 0 then Some (expressionNames b) else None),
      so_attributes = sb_selectedFields b,
      so_limit = limitValue b,
      so_indexName = (case indexNameValue b of Some n \<Rightarrow> if n = [] then None else Some n | None \<Rightarrow> None),
      so_consistent = consistentReadValue b,
      so_startKey = startKeyValue b,
      so_totalSegments =
        (if totalSegmentsValue b \<noteq> None \<and> segmentValue b \<noteq> None then totalSegmentsValue b else None),
      so_segment =
        (if totalSegmentsValue b \<noteq> None \<and> segmentValue b \<noteq> None then segmentValue b else None)\<rparr>"

text \<open>The public methods of the builder, as calls a caller can chain.\<close>

datatype scan_call =
    Equals string jsval
  | NotEquals string jsval
  | LessThan string jsval
  | LessThanOrEqual string jsval
  | GreaterThan string jsval
  | GreaterThanOrEqual string jsval
  | BeginsWith string jsval
  | Contains string jsval
  | Between string jsval jsval
  | AttributeExists string
  | AttributeNotExists string
  | Filter string "jsval js_object option"
  | SelectFields "string list"
  | WithLimit jsval
  | UsingIndex string
  | WithConsistentRead bool
  | WithStartKey "jsval js_object"
  | WithParallelScan jsval jsval

fun apply_call :: "bool \<Rightarrow> ScanBuilder \<Rightarrow> scan_call \<Rightarrow> error + ScanBuilder" where
  "apply_call t b (Equals f v) = addCondition t b f ''='' v"
| "apply_call t b (NotEquals f v) = addCondition t b f ''<>'' v"
| "apply_call t b (LessThan f v) = addCondition t b f ''<'' v"
| "apply_call t b (LessThanOrEqual f v) = addCondition t b f ''<='' v"
| "apply_call t b (GreaterThan f v) = addCondition t b f ''>'' v"
| "apply_call t b (GreaterThanOrEqual f v) = addCondition t b f ''>='' v"
| "apply_call t b (BeginsWith f v) = addFunctionCondition ''begins_with'' t b f v"
| "apply_call t b (Contains f v) = addFunctionCondition ''contains'' t b f v"
| "apply_call t b (Between f lo hi) = between_scan t b f lo hi"
| "apply_call t b (AttributeExists f) = addAttributeCondition ''attribute_exists'' t b f"
| "apply_call t b (AttributeNotExists f) = addAttributeCondition ''attribute_not_exists'' t b f"
| "apply_call t b (Filter e vs) = filter_scan b e vs"
| "apply_call t b (SelectFields fs) = selectFields_scan t b fs"
| "apply_call t b (WithLimit l) = withLimit_scan b l"
| "apply_call t b (UsingIndex n) = usingIndex_scan b n"
| "apply_call t b (WithConsistentRead c) = withConsistentRead b c"
| "apply_call t b (WithStartKey k) = withStartKey b k"
| "apply_call t b (WithParallelScan ts s) = withParallelScan b ts s"

text \<open>A chain of calls; the first one that throws ends it.\<close>

fun apply_calls :: "bool \<Rightarrow> ScanBuilder \<Rightarrow> scan_call list \<Rightarrow> error + ScanBuilder" where
  "apply_calls t b [] = Inr b"
| "apply_calls t b (c # cs) =
     (case apply_call t b c of Inl e \<Rightarrow> Inl e | Inr b' \<Rightarrow> apply_calls t b' cs)"

text \<open>
  The filter and the value placeholders as the specification words them, for comparison with
  the code. One counter, starting at 0, numbers the value placeholders \<^verbatim>\<open>:value{n}\<close> of the
  whole build. A comparison and a function condition take the next placeholder, \<^verbatim>\<open>between\<close>
  the next two, the attribute conditions, \<^verbatim>\<open>filter\<close> and the modifiers none. What a call
  contributes, given the name its field resolved to and the counter: the fragment it appends,
  the bindings it writes into the value map, and the placeholders it generated, which are the
  ones written into that fragment and those bindings.
\<close>

definition spec_placeholder :: "nat \<Rightarrow> string" where
  "spec_placeholder n = '':value'' @ show_nat n"

definition spec_comparison :: "string \<Rightarrow> string \<Rightarrow> jsval \<Rightarrow> nat \<Rightarrow>
    string list \<times> (string \<times> jsval) list \<times> string list" where
  "spec_comparison operator nm v n =
     (let k = spec_placeholder n in ([nm @ '' '' @ operator @ '' '' @ k], [(k, v)], [k]))"

definition spec_function :: "string \<Rightarrow> string \<Rightarrow> jsval \<Rightarrow> nat \<Rightarrow>
    string list \<times> (string \<times> jsval) list \<times> string list" where
  "spec_function fname nm v n =
     (let k = spec_placeholder n in ([fname @ ''('' @ nm @ '', '' @ k @ '')''], [(k, v)], [k]))"

fun spec_step :: "scan_call \<Rightarrow> string \<Rightarrow> nat \<Rightarrow> string list \<times> (string \<times> jsval) list \<times> string list" where
  "spec_step (Equals f v) nm n = spec_comparison ''='' nm v n"
| "spec_step (NotEquals f v) nm n = spec_comparison ''<>'' nm v n"
| "spec_step (LessThan f v) nm n = spec_comparison ''<'' nm v n"
| "spec_step (LessThanOrEqual f v) nm n = spec_comparison ''<='' nm v n"
| "spec_step (GreaterThan f v) nm n = spec_comparison ''>'' nm v n"
| "spec_step (GreaterThanOrEqual f v) nm n = spec_comparison ''>='' nm v n"
| "spec_step (BeginsWith f v) nm n = spec_function ''begins_with'' nm v n"
| "spec_step (Contains f v) nm n = spec_function ''contains'' nm v n"
| "spec_step (Between f lo hi) nm n =
     (let k1 = spec_placeholder n; k2 = spec_placeholder (n + 1)
      in ([nm @ '' BETWEEN '' @ k1 @ '' AND '' @ k2], [(k1, lo), (k2, hi)], [k1, k2]))"
| "spec_step (AttributeExists f) nm n = ([''attribute_exists('' @ nm @ '')''], [], [])"
| "spec_step (AttributeNotExists f) nm n = ([''attribute_not_exists('' @ nm @ '')''], [], [])"
| "spec_step (Filter e vs) nm n =
     ([''('' @ e @ '')''], (case vs of None \<Rightarrow> [] | Some xs \<Rightarrow> xs), [])"
| "spec_step _ nm n = ([], [], [])"

text \<open>The field a call names, and the name the builder's resolver gives it when the call is
  made on builder \<open>b\<close>.\<close>

fun call_field :: "scan_call \<Rightarrow> string option" where
  "call_field (Equals f v) = Some f"
| "call_field (NotEquals f v) = Some f"
| "call_field (LessThan f v) = Some f"
| "call_field (LessThanOrEqual f v) = Some f"
| "call_field (GreaterThan f v) = Some f"
| "call_field (GreaterThanOrEqual f v) = Some f"
| "call_field (BeginsWith f v) = Some f"
| "call_field (Contains f v) = Some f"
| "call_field (Between f lo hi) = Some f"
| "call_field (AttributeExists f) = Some f"
| "call_field (AttributeNotExists f) = Some f"
| "call_field _ = None"

definition spec_name :: "bool \<Rightarrow> ScanBuilder \<Rightarrow> scan_call \<Rightarrow> string" where
  "spec_name t b c =
     (case call_field c of Some f \<Rightarrow> fst (getExpressionName t b f) | None \<Rightarrow> [])"

text \<open>The contributions of a chain of calls made on builder \<open>b\<close> with \<open>n\<close> placeholders
  generated so far: all fragments, all bindings and all generated placeholders, in order.\<close>

fun spec_scan :: "bool \<Rightarrow> ScanBuilder \<Rightarrow> nat \<Rightarrow> scan_call list \<Rightarrow>
    string list \<times> (string \<times> jsval) list \<times> string list" where
  "spec_scan t b n [] = ([], [], [])"
| "spec_scan t b n (c # cs) =
     (case spec_step c (spec_name t b c) n of (frs, bs, ks) \<Rightarrow>
        (case apply_call t b c of
           Inl e \<Rightarrow> (frs, bs, ks)
         | Inr b' \<Rightarrow>
             (case spec_scan t b' (n + length ks) cs of
                (frs', bs', ks') \<Rightarrow> (frs @ frs', bs @ bs', ks @ ks'))))"

section \<open>Stream processing (stream.ts)\<close>

text \<open>
  What the processor talks to is outside the code: the streams client and the caller's
  handler. They are modelled as a scripted world: the answer of \<^verbatim>\<open>client.send\<close> to each
  command (\<open>Inl\<close> when it throws), where the answer to the \<open>k\<close>-th
  \<^verbatim>\<open>GetRecordsCommand\<close> may depend on \<open>k\<close>, and what the \<open>k\<close>-th handler
  invocation does: how it settles (\<open>Some e\<close> when it rejects with \<open>e\<close>) and the array
  it was given as it stands when it has settled (the handler receives the very array the
  processor goes on to read, and may change it). The answer to
  \<^verbatim>\<open>DescribeStreamCommand\<close> is \<open>Inr None\<close> when it has no \<^verbatim>\<open>StreamDescription\<close> and
  \<open>Inr (Some shards)\<close> with the \<^verbatim>\<open>Shards\<close> of the description otherwise. A record is
  represented by its event id; the conversion of records does not touch their number or
  order.
\<close>

type_synonym stream_record = string

record world =
  describeStream_response :: "error + string list option option"
  getShardIterator_response :: "string \<Rightarrow> error + string option"
  getRecords_response :: "nat \<Rightarrow> string \<Rightarrow> int \<Rightarrow> error + (stream_record list option \<times> string option)"
  handler_outcome :: "nat \<Rightarrow> stream_record list \<Rightarrow> error option \<times> stream_record list"

text \<open>An \<^verbatim>\<open>OperationResponse\<close>, or the exception thrown in its place.\<close>

datatype 'a OperationResponse = Success 'a | Failure error | Throws error

text \<open>\<^verbatim>\<open>handleError\<close> on a plain \<^verbatim>\<open>Error\<close>: in the test environment it returns the
  failure, elsewhere it throws it.\<close>

definition handleError :: "bool \<Rightarrow> string \<Rightarrow> error \<Rightarrow> 'a OperationResponse" where
  "handleError test_env context e =
     (case e of Error message \<Rightarrow>
        (let dynamoError = Error (context @ '': '' @ message)
         in if test_env then Failure dynamoError else Throws dynamoError))"

definition describeStream :: "bool \<Rightarrow> world \<Rightarrow> string \<Rightarrow> string list option OperationResponse" where
  "describeStream test_env w streamArn =
     (case describeStream_response w of
        Inl e \<Rightarrow> handleError test_env (''Failed to describe stream '' @ streamArn) e
      | Inr None \<Rightarrow> Failure (Error (''No stream description found for '' @ streamArn))
      | Inr (Some shards) \<Rightarrow> Success shards)"

definition getShardIterator :: "bool \<Rightarrow> world \<Rightarrow> string \<Rightarrow> string OperationResponse" where
  "getShardIterator test_env w shardId =
     (case getShardIterator_response w shardId of
        Inl e \<Rightarrow> handleError test_env (''Failed to get shard iterator for shard '' @ shardId) e
      | Inr None \<Rightarrow> Failure (Error (''No shard iterator returned for shard '' @ shardId))
      | Inr (Some it) \<Rightarrow>
          if it = [] then Failure (Error (''No shard iterator returned for shard '' @ shardId))
          else Success it)"

definition getStreamRecords ::
  "bool \<Rightarrow> world \<Rightarrow> nat \<Rightarrow> string \<Rightarrow> int \<Rightarrow> (stream_record list \<times> string option) OperationResponse" where
  "getStreamRecords test_env w k shardIterator lim =
     (case getRecords_response w k shardIterator lim of
        Inl e \<Rightarrow> handleError test_env ''Failed to get stream records'' e
      | Inr (records, nextShardIterator) \<Rightarrow>
          Success ((case records of None \<Rightarrow> [] | Some rs \<Rightarrow> rs), nextShardIterator))"

text \<open>The \<^verbatim>\<open>Partial<StreamProcessingConfig>\<close> argument and the defaults
  \<^verbatim>\<open>config.x || default\<close>; no maximum (\<^verbatim>\<open>Infinity\<close>) is \<open>None\<close>.\<close>

record StreamProcessingConfig =
  cfg_batchSize :: "int option"
  cfg_maxRecords :: "int option"
  cfg_pollInterval :: "int option"
  cfg_stopOnError :: "bool option"

definition batchSize :: "StreamProcessingConfig \<Rightarrow> int" where
  "batchSize c = (case cfg_batchSize c of Some n \<Rightarrow> if n = 0 then 100 else n | None \<Rightarrow> 100)"

definition maxRecords :: "StreamProcessingConfig \<Rightarrow> int option" where
  "maxRecords c = (case cfg_maxRecords c of Some n \<Rightarrow> if n = 0 then None else Some n | None \<Rightarrow> None)"

definition pollInterval :: "StreamProcessingConfig \<Rightarrow> int" where
  "pollInterval c = (case cfg_pollInterval c of Some n \<Rightarrow> if n = 0 then 1000 else n | None \<Rightarrow> 1000)"

definition stopOnError :: "StreamProcessingConfig \<Rightarrow> bool" where
  "stopOnError c = (case cfg_stopOnError c of Some b \<Rightarrow> b | None \<Rightarrow> False)"

text \<open>\<^verbatim>\<open>processedRecords < processingConfig.maxRecords\<close>\<close>

definition below_max :: "StreamProcessingConfig \<Rightarrow> nat \<Rightarrow> bool" where
  "below_max c processed = (case maxRecords c of None \<Rightarrow> True | Some n \<Rightarrow> int processed < n)"

text \<open>What a run does that can be seen from outside, in order. A handler invocation is
  recorded with the records passed, how it settled, and the array as it left it.\<close>

datatype event =
    GetShardIteratorCall string
  | GetRecordsCall string "(stream_record list \<times> string option) OperationResponse"
  | HandlerCall "stream_record list" "error option" "stream_record list"
  | ConsoleError string
  | Sleep int

record loop_state =
  processedRecords :: nat
  getRecordsCalls :: nat
  handlerCalls :: nat

datatype run_status = Finished | Rejected error | OutOfFuel

text \<open>
  One pass through the body of the \<^verbatim>\<open>while\<close> loop, entered with iterator \<open>cur\<close>: the
  error thrown out of it, if any; its events; the state after it; and
  \<^verbatim>\<open>nextShardIterator\<close> as it stands at the end. \<^verbatim>\<open>records.length\<close> is read three
  times: before the handler is invoked, on the array as fetched; and after it has settled,
  for \<^verbatim>\<open>processedRecords += records.length\<close> and for the final
  \<^verbatim>\<open>records.length === 0\<close>, on the array as the handler left it.
\<close>

definition iteration ::
  "bool \<Rightarrow> world \<Rightarrow> StreamProcessingConfig \<Rightarrow> string \<Rightarrow> loop_state \<Rightarrow>
     error option \<times> event list \<times> loop_state \<times> string option" where
  "iteration test_env w c cur st =
     (let recordsResult = getStreamRecords test_env w (getRecordsCalls st) cur (batchSize c);
          st1 = st\<lparr>getRecordsCalls := getRecordsCalls st + 1\<rparr>
      in case recordsResult of
           Throws e \<Rightarrow> (Some e, [GetRecordsCall cur recordsResult], st1, Some cur)
         | Failure e \<Rightarrow>
             if stopOnError c then (Some e, [GetRecordsCall cur recordsResult], st1, Some cur)
             else (None,
                   [GetRecordsCall cur recordsResult,
                    ConsoleError ''Error getting stream records:'',
                    Sleep (pollInterval c)],
                   st1, Some cur)
         | Success (records, newIterator) \<Rightarrow>
             if records \<noteq> [] then
               (case handler_outcome w (handlerCalls st1) records of
                  (outcome, records') \<Rightarrow>
                    (let st2 = st1\<lparr>handlerCalls := handlerCalls st1 + 1\<rparr>;
                         sleep = (if records' = [] then [Sleep (pollInterval c)] else [])
                     in case outcome of
                          None \<Rightarrow>
                            (None,
                             [GetRecordsCall cur recordsResult, HandlerCall records None records'] @
                               sleep,
                             st2\<lparr>processedRecords := processedRecords st2 + length records'\<rparr>,
                             newIterator)
                        | Some e \<Rightarrow>
                            if stopOnError c
                            then (Some e,
                                  [GetRecordsCall cur recordsResult,
                                   HandlerCall records (Some e) records'],
                                  st2, newIterator)
                            else (None,
                                  [GetRecordsCall cur recordsResult,
                                   HandlerCall records (Some e) records',
                                   ConsoleError ''Error in stream handler:''] @ sleep,
                                  st2, newIterator)))
             else (None, [GetRecordsCall cur recordsResult, Sleep (pollInterval c)], st1,
                   newIterator))"

text \<open>
  The \<^verbatim>\<open>while\<close> loop of one shard. It can poll for ever, so it runs on fuel: one unit per
  pass, \<open>OutOfFuel\<close> with the events so far when none is left. The result is how the loop
  ended, the events of the loop, and the state after it.
\<close>

fun while_loop ::
  "nat \<Rightarrow> bool \<Rightarrow> world \<Rightarrow> StreamProcessingConfig \<Rightarrow> string option \<Rightarrow> loop_state \<Rightarrow>
     run_status \<times> event list \<times> loop_state" where
  "while_loop 0 test_env w c nextShardIterator st = (OutOfFuel, [], st)"
| "while_loop (Suc fuel) test_env w c nextShardIterator st =
     (case nextShardIterator of
        None \<Rightarrow> (Finished, [], st)
      | Some cur \<Rightarrow>
          if cur = [] \<or> \<not> below_max c (processedRecords st) then (Finished, [], st)
          else
            (case iteration test_env w c cur st of
               (Some e, evs, st1, newIterator) \<Rightarrow> (Rejected e, evs, st1)
             | (None, evs, st1, newIterator) \<Rightarrow>
                 (case while_loop fuel test_env w c newIterator st1 of
                    (s, evs', st') \<Rightarrow> (s, evs @ evs', st'))))"

text \<open>The \<^verbatim>\<open>for (const shard of shards)\<close> loop; each shard's \<^verbatim>\<open>while\<close> loop gets the
  same fuel.\<close>

fun shards_loop ::
  "nat \<Rightarrow> bool \<Rightarrow> world \<Rightarrow> StreamProcessingConfig \<Rightarrow> string list \<Rightarrow> loop_state \<Rightarrow>
     run_status \<times> event list \<times> loop_state" where
  "shards_loop fuel test_env w c [] st = (Finished, [], st)"
| "shards_loop fuel test_env w c (shard # shards) st =
     (case getShardIterator test_env w shard of
        Throws e \<Rightarrow> (Rejected e, [GetShardIteratorCall shard], st)
      | Failure e \<Rightarrow> (Rejected e, [GetShardIteratorCall shard], st)
      | Success it \<Rightarrow>
          (case while_loop fuel test_env w c (Some it) st of
             (Finished, evs, st') \<Rightarrow>
               (case shards_loop fuel test_env w c shards st' of
                  (s, evs', st'') \<Rightarrow> (s, GetShardIteratorCall shard # evs @ evs', st''))
           | (s, evs, st') \<Rightarrow> (s, GetShardIteratorCall shard # evs, st')))"

definition processStream ::
  "nat \<Rightarrow> bool \<Rightarrow> world \<Rightarrow> string \<Rightarrow> StreamProcessingConfig \<Rightarrow> run_status \<times> event list \<times> loop_state" where
  "processStream fuel test_env w streamArn c =
     (let st0 = \<lparr>processedRecords = 0, getRecordsCalls = 0, handlerCalls = 0\<rparr>
      in case describeStream test_env w streamArn of
           Throws e \<Rightarrow> (Rejected e, [], st0)
         | Failure e \<Rightarrow> (Rejected e, [], st0)
         | Success shardsOpt \<Rightarrow>
             (let shards = (case shardsOpt of None \<Rightarrow> [] | Some ss \<Rightarrow> ss)
              in if shards = [] then (Rejected (Error ''No shards found in the stream''), [], st0)
                 else shards_loop fuel test_env w c shards st0))"

text \<open>The shards the stream description lists.\<close>

definition described_shards :: "world \<Rightarrow> string list" where
  "described_shards w =
     (case describeStream_response w of Inr (Some (Some ss)) \<Rightarrow> ss | _ \<Rightarrow> [])"

text \<open>Readings of a run's events: the records passed to the handler; the records passed to
  the invocations that resolved; what the processor has added to \<^verbatim>\<open>processedRecords\<close>
  (for each invocation that resolved, the length of the array as the handler left it); and
  the shards an iterator was requested for.\<close>

fun records_passed :: "event list \<Rightarrow> nat" where
  "records_passed [] = 0"
| "records_passed (HandlerCall rs r rs' # evs) = length rs + records_passed evs"
| "records_passed (_ # evs) = records_passed evs"

fun records_resolved :: "event list \<Rightarrow> nat" where
  "records_resolved [] = 0"
| "records_resolved (HandlerCall rs None rs' # evs) = length rs + records_resolved evs"
| "records_resolved (_ # evs) = records_resolved evs"

fun records_processed :: "event list \<Rightarrow> nat" where
  "records_processed [] = 0"
| "records_processed (HandlerCall rs None rs' # evs) = length rs' + records_processed evs"
| "records_processed (_ # evs) = records_processed evs"

fun iterator_requests :: "event list \<Rightarrow> string list" where
  "iterator_requests [] = []"
| "iterator_requests (GetShardIteratorCall s # evs) = s # iterator_requests evs"
| "iterator_requests (_ # evs) = iterator_requests evs"

fun is_fetch :: "event \<Rightarrow> bool" where
  "is_fetch (GetRecordsCall cur r) = True"
| "is_fetch _ = False"

fun is_iterator_request :: "event \<Rightarrow> bool" where
  "is_iterator_request (GetShardIteratorCall s) = True"
| "is_iterator_request _ = False"

text \<open>The events of a run from a given one up to the next request of a shard iterator: what
  is left of the run on the shard in hand.\<close>

definition rest_of_shard :: "event list \<Rightarrow> event list" where
  "rest_of_shard evs = takeWhile (\<lambda>e. \<not> is_iterator_request e) evs"

text \<open>A handler that leaves the length of the array it is given as it is.\<close>

definition handler_keeps_length :: "world \<Rightarrow> bool" where
  "handler_keeps_length w = (\<forall>k rs. length (snd (handler_outcome w k rs)) = length rs)"

text \<open>Worlds and configurations for runs to look at. A stream of two shards: the first
  returns two records and the next iterator on each of its first two fetches, and the handler
  resolves and leaves its array alone. A stream of one shard whose only fetch returns two
  records and no next iterator. A stream of one shard whose first fetch returns one record
  and the next iterator \<^verbatim>\<open>i1\<close>, with a handler that rejects.\<close>

definition world_two_shards :: world where
  "world_two_shards =
     \<lparr>describeStream_response = Inr (Some (Some [''s1'', ''s2''])),
      getShardIterator_response = (\<lambda>shard. if shard = ''s1'' then Inr (Some ''a0'') else Inr (Some ''b0'')),
      getRecords_response =
        (\<lambda>k it lim. if it = ''a0'' then Inr (Some [''r1'', ''r2''], Some ''a1'')
                     else if it = ''a1'' then Inr (Some [''r3'', ''r4''], Some ''a2'')
                     else Inr (Some [''r5''], None)),
      handler_outcome = (\<lambda>k rs. (None, rs))\<rparr>"

definition world_two_records :: world where
  "world_two_records =
     \<lparr>describeStream_response = Inr (Some (Some [''s1''])),
      getShardIterator_response = (\<lambda>shard. Inr (Some ''i0'')),
      getRecords_response = (\<lambda>k it lim. Inr (Some [''r1'', ''r2''], None)),
      handler_outcome = (\<lambda>k rs. (None, rs))\<rparr>"


definition config_max_1 :: StreamProcessingConfig where
  "config_max_1 =
     \<lparr>cfg_batchSize = None, cfg_maxRecords = Some 1, cfg_pollInterval = None, cfg_stopOnError = None\<rparr>"

definition config_max_3 :: StreamProcessingConfig where
  "config_max_3 =
     \<lparr>cfg_batchSize = None, cfg_maxRecords = Some 3, cfg_pollInterval = None, cfg_stopOnError = None\<rparr>"



section \<open>Properties of the query builder\<close>

lemma build_no_conditions_iff:
  "(build b = Inl (Error ''No conditions specified'')) = (conditions b = [])"
  by (auto simp: build_def split: list.splits QueryOperationType.splits sum.splits jsval.splits
      elim!: js_index.elims)

lemma build_default:
  assumes "conditions b = c # cs"
    and "qc_operation c \<noteq> BEGINS_WITH" and "qc_operation c \<noteq> BETWEEN"
  shows "build b =
     Inr \<lparr>qp_conditions = c # cs, qp_indexName = indexName b, qp_limit = limit b,
          qp_select = selectedFields b,
          keyCondition = \<lparr>expression = qc_field c @ '' = :keyValue'',
                          kc_values = [('':keyValue'', qc_value c)]\<rparr>\<rparr>"
  using assms by (cases "qc_operation c") (simp_all add: build_def)

lemma build_begins_with:
  assumes "conditions b = c # cs" and "qc_operation c = BEGINS_WITH"
  shows "build b =
     Inr \<lparr>qp_conditions = c # cs, qp_indexName = indexName b, qp_limit = limit b,
          qp_select = selectedFields b,
          keyCondition = \<lparr>expression = ''begins_with('' @ qc_field c @ '', :keyValue)'',
                          kc_values = [('':keyValue'', qc_value c)]\<rparr>\<rparr>"
  using assms by (simp add: build_def)

lemma build_between:
  assumes "conditions b = c # cs" and "qc_operation c = BETWEEN"
    and "qc_value c = JArr [lo, hi]"
  shows "build b =
     Inr \<lparr>qp_conditions = c # cs, qp_indexName = indexName b, qp_limit = limit b,
          qp_select = selectedFields b,
          keyCondition = \<lparr>expression = qc_field c @ '' BETWEEN :start AND :end'',
                          kc_values = [('':start'', lo), ('':end'', hi)]\<rparr>\<rparr>"
  using assms by (simp add: build_def)

lemma equals_pushes:
  "equals b f v = Inr b1 \<Longrightarrow>
   conditions b1 = conditions b @ [\<lparr>qc_field = f, qc_value = v, qc_operation = EQUALS\<rparr>]"
  by (auto simp: equals_def add_validated_def push_condition_def split: sum.splits if_splits)

text \<open>
  C1. \<^verbatim>\<open>build()\<close> throws the "No conditions specified" error exactly when no condition
  has been added. Otherwise it returns the conditions, index name, limit and selection as they
  stand, with the key condition compiled from the first condition and from nothing else:
  \<^verbatim>\<open>begins_with(field, :keyValue)\<close> for \<^verbatim>\<open>BEGINS_WITH\<close>,
  \<^verbatim>\<open>field BETWEEN :start AND :end\<close> with the two bounds for \<^verbatim>\<open>BETWEEN\<close>, and
  \<^verbatim>\<open>field = :keyValue\<close> for every other operation, \<^verbatim>\<open>:keyValue\<close> bound to the first
  condition's value. So \<^verbatim>\<open>equals(f, v)\<close> on a builder without conditions, whatever is
  added after it, builds the expression \<^verbatim>\<open>f = :keyValue\<close> with \<^verbatim>\<open>:keyValue\<close> bound to
  \<open>v\<close>.
\<close>

theorem C1_build_key_condition:
  "((build b = Inl (Error ''No conditions specified'')) = (conditions b = [])) \<and>
   (\<forall>c cs. conditions b = c # cs \<and> qc_operation c \<noteq> BEGINS_WITH \<and> qc_operation c \<noteq> BETWEEN \<longrightarrow>
      build b =
        Inr \<lparr>qp_conditions = c # cs, qp_indexName = indexName b, qp_limit = limit b,
             qp_select = selectedFields b,
             keyCondition = \<lparr>expression = qc_field c @ '' = :keyValue'',
                             kc_values = [('':keyValue'', qc_value c)]\<rparr>\<rparr>) \<and>
   (\<forall>c cs. conditions b = c # cs \<and> qc_operation c = BEGINS_WITH \<longrightarrow>
      build b =
        Inr \<lparr>qp_conditions = c # cs, qp_indexName = indexName b, qp_limit = limit b,
             qp_select = selectedFields b,
             keyCondition = \<lparr>expression = ''begins_with('' @ qc_field c @ '', :keyValue)'',
                             kc_values = [('':keyValue'', qc_value c)]\<rparr>\<rparr>) \<and>
   (\<forall>c cs lo hi. conditions b = c # cs \<and> qc_operation c = BETWEEN \<and> qc_value c = JArr [lo, hi] \<longrightarrow>
      build b =
        Inr \<lparr>qp_conditions = c # cs, qp_indexName = indexName b, qp_limit = limit b,
             qp_select = selectedFields b,
             keyCondition = \<lparr>expression = qc_field c @ '' BETWEEN :start AND :end'',
                             kc_values = [('':start'', lo), ('':end'', hi)]\<rparr>\<rparr>) \<and>
   (\<forall>b0 f v later. conditions b0 = [] \<and> equals b0 f v = Inr b \<longrightarrow>
      (\<exists>r. build (b\<lparr>conditions := conditions b @ later\<rparr>) = Inr r \<and>
         expression (keyCondition r) = f @ '' = :keyValue'' \<and>
         kc_values (keyCondition r) = [('':keyValue'', v)]))"
proof (intro conjI allI impI)
  show "(build b = Inl (Error ''No conditions specified'')) = (conditions b = [])"
    by (rule build_no_conditions_iff)
next
  fix c cs
  assume "conditions b = c # cs \<and> qc_operation c \<noteq> BEGINS_WITH \<and> qc_operation c \<noteq> BETWEEN"
  then show "build b =
        Inr \<lparr>qp_conditions = c # cs, qp_indexName = indexName b, qp_limit = limit b,
             qp_select = selectedFields b,
             keyCondition = \<lparr>expression = qc_field c @ '' = :keyValue'',
                             kc_values = [('':keyValue'', qc_value c)]\<rparr>\<rparr>"
    using build_default [of b c cs] by blast
next
  fix c cs
  assume "conditions b = c # cs \<and> qc_operation c = BEGINS_WITH"
  then show "build b =
        Inr \<lparr>qp_conditions = c # cs, qp_indexName = indexName b, qp_limit = limit b,
             qp_select = selectedFields b,
             keyCondition = \<lparr>expression = ''begins_with('' @ qc_field c @ '', :keyValue)'',
                             kc_values = [('':keyValue'', qc_value c)]\<rparr>\<rparr>"
    using build_begins_with [of b c cs] by blast
next
  fix c cs lo hi
  assume "conditions b = c # cs \<and> qc_operation c = BETWEEN \<and> qc_value c = JArr [lo, hi]"
  then show "build b =
        Inr \<lparr>qp_conditions = c # cs, qp_indexName = indexName b, qp_limit = limit b,
             qp_select = selectedFields b,
             keyCondition = \<lparr>expression = qc_field c @ '' BETWEEN :start AND :end'',
                             kc_values = [('':start'', lo), ('':end'', hi)]\<rparr>\<rparr>"
    using build_between [of b c cs lo hi] by blast
next
  fix b0 f v later
  assume a: "conditions b0 = [] \<and> equals b0 f v = Inr b"
  let ?c = "\<lparr>qc_field = f, qc_value = v, qc_operation = EQUALS\<rparr>"
  from a equals_pushes [of b0 f v b] have "conditions b = [?c]" by simp
  then have "conditions (b\<lparr>conditions := conditions b @ later\<rparr>) = ?c # later" by simp
  from build_default [OF this]
  show "\<exists>r. build (b\<lparr>conditions := conditions b @ later\<rparr>) = Inr r \<and>
         expression (keyCondition r) = f @ '' = :keyValue'' \<and>
         kc_values (keyCondition r) = [('':keyValue'', v)]"
    by simp
qed

lemma equals_userId:
  "equals new_QueryBuilder ''userId'' (JStr ''123'') =
     Inr (new_QueryBuilder\<lparr>conditions :=
       [\<lparr>qc_field = ''userId'', qc_value = JStr ''123'', qc_operation = EQUALS\<rparr>]\<rparr>)"
  by (simp add: equals_def add_validated_def validateFieldName_def validateValue_def
      all_word_chars_def is_word_char_def is_lower_def is_upper_def is_digit_def
      push_condition_def new_QueryBuilder_def MAX_CONDITIONS_def)

lemma greaterThan_after_userId:
  "greaterThan_q (new_QueryBuilder\<lparr>conditions :=
       [\<lparr>qc_field = ''userId'', qc_value = JStr ''123'', qc_operation = EQUALS\<rparr>]\<rparr>)
     ''age'' (JNum 18) =
     Inr (new_QueryBuilder\<lparr>conditions :=
       [\<lparr>qc_field = ''userId'', qc_value = JStr ''123'', qc_operation = EQUALS\<rparr>,
        \<lparr>qc_field = ''age'', qc_value = JNum 18, qc_operation = GREATER_THAN\<rparr>]\<rparr>)"
  by (simp add: greaterThan_q_def add_numeric_def validateFieldName_def
      all_word_chars_def is_word_char_def is_lower_def is_upper_def is_digit_def
      push_condition_def new_QueryBuilder_def MAX_CONDITIONS_def)

theorem C1_build_key_condition_witness:
  "build new_QueryBuilder = Inl (Error ''No conditions specified'') \<and>
   equals new_QueryBuilder ''userId'' (JStr ''123'') =
     Inr (new_QueryBuilder\<lparr>conditions :=
       [\<lparr>qc_field = ''userId'', qc_value = JStr ''123'', qc_operation = EQUALS\<rparr>]\<rparr>) \<and>
   greaterThan_q (new_QueryBuilder\<lparr>conditions :=
       [\<lparr>qc_field = ''userId'', qc_value = JStr ''123'', qc_operation = EQUALS\<rparr>]\<rparr>)
     ''age'' (JNum 18) =
     Inr (new_QueryBuilder\<lparr>conditions :=
       [\<lparr>qc_field = ''userId'', qc_value = JStr ''123'', qc_operation = EQUALS\<rparr>,
        \<lparr>qc_field = ''age'', qc_value = JNum 18, qc_operation = GREATER_THAN\<rparr>]\<rparr>) \<and>
   build (new_QueryBuilder\<lparr>conditions :=
       [\<lparr>qc_field = ''userId'', qc_value = JStr ''123'', qc_operation = EQUALS\<rparr>,
        \<lparr>qc_field = ''age'', qc_value = JNum 18, qc_operation = GREATER_THAN\<rparr>]\<rparr>) =
     Inr \<lparr>qp_conditions =
            [\<lparr>qc_field = ''userId'', qc_value = JStr ''123'', qc_operation = EQUALS\<rparr>,
             \<lparr>qc_field = ''age'', qc_value = JNum 18, qc_operation = GREATER_THAN\<rparr>],
          qp_indexName = None, qp_limit = None, qp_select = None,
          keyCondition = \<lparr>expression = ''userId = :keyValue'',
                          kc_values = [('':keyValue'', JStr ''123'')]\<rparr>\<rparr>"
proof -
  let ?c = "\<lparr>qc_field = ''userId'', qc_value = JStr ''123'', qc_operation = EQUALS\<rparr>"
  let ?d = "\<lparr>qc_field = ''age'', qc_value = JNum 18, qc_operation = GREATER_THAN\<rparr>"
  have a: "build new_QueryBuilder = Inl (Error ''No conditions specified'')"
    using C1_build_key_condition [of new_QueryBuilder] by (simp add: new_QueryBuilder_def)
  have "conditions (new_QueryBuilder\<lparr>conditions := [?c, ?d]\<rparr>) = ?c # [?d] \<and>
      qc_operation ?c \<noteq> BEGINS_WITH \<and> qc_operation ?c \<noteq> BETWEEN"
    by simp
  with C1_build_key_condition [of "new_QueryBuilder\<lparr>conditions := [?c, ?d]\<rparr>"]
  have "build (new_QueryBuilder\<lparr>conditions := [?c, ?d]\<rparr>) =
     Inr \<lparr>qp_conditions = ?c # [?d],
          qp_indexName = indexName (new_QueryBuilder\<lparr>conditions := [?c, ?d]\<rparr>),
          qp_limit = limit (new_QueryBuilder\<lparr>conditions := [?c, ?d]\<rparr>),
          qp_select = selectedFields (new_QueryBuilder\<lparr>conditions := [?c, ?d]\<rparr>),
          keyCondition = \<lparr>expression = qc_field ?c @ '' = :keyValue'',
                          kc_values = [('':keyValue'', qc_value ?c)]\<rparr>\<rparr>"
    by blast
  then have b: "build (new_QueryBuilder\<lparr>conditions := [?c, ?d]\<rparr>) =
     Inr \<lparr>qp_conditions = [?c, ?d], qp_indexName = None, qp_limit = None, qp_select = None,
          keyCondition = \<lparr>expression = ''userId = :keyValue'',
                          kc_values = [('':keyValue'', JStr ''123'')]\<rparr>\<rparr>"
    by (simp add: new_QueryBuilder_def)
  from a equals_userId greaterThan_after_userId b show ?thesis by (intro conjI)
qed

text \<open>
  C10. When the first condition of a query builder uses an operation other than
  \<^verbatim>\<open>EQUALS\<close>, \<^verbatim>\<open>BEGINS_WITH\<close> or \<^verbatim>\<open>BETWEEN\<close>, \<^verbatim>\<open>build()\<close> succeeds and compiles the
  key condition as the equality \<^verbatim>\<open>field = :keyValue\<close>, with the condition's value bound to
  \<^verbatim>\<open>:keyValue\<close> and nothing else bound.
\<close>

theorem C10_default_key_condition_is_equality:
  assumes "conditions b = c # cs"
    and "qc_operation c \<noteq> EQUALS" and "qc_operation c \<noteq> BEGINS_WITH" and "qc_operation c \<noteq> BETWEEN"
  shows "\<exists>r. build b = Inr r \<and>
     expression (keyCondition r) = qc_field c @ '' = :keyValue'' \<and>
     kc_values (keyCondition r) = [('':keyValue'', qc_value c)]"
  using assms by (cases "qc_operation c") (simp_all add: build_def)

theorem C10_default_key_condition_witness:
  "\<exists>b r. greaterThan_q new_QueryBuilder ''age'' (JNum 18) = Inr b \<and>
     conditions b = [\<lparr>qc_field = ''age'', qc_value = JNum 18, qc_operation = GREATER_THAN\<rparr>] \<and>
     build b = Inr r \<and>
     expression (keyCondition r) = ''age = :keyValue'' \<and>
     kc_values (keyCondition r) = [('':keyValue'', JNum 18)]"
proof -
  let ?c = "\<lparr>qc_field = ''age'', qc_value = JNum 18, qc_operation = GREATER_THAN\<rparr>"
  let ?b = "new_QueryBuilder\<lparr>conditions := [?c]\<rparr>"
  have g: "greaterThan_q new_QueryBuilder ''age'' (JNum 18) = Inr ?b"
    by (simp add: greaterThan_q_def add_numeric_def validateFieldName_def
        all_word_chars_def is_word_char_def is_lower_def is_upper_def is_digit_def
        push_condition_def new_QueryBuilder_def MAX_CONDITIONS_def)
  have c: "conditions ?b = ?c # []" by simp
  from C10_default_key_condition_is_equality [OF c] g show ?thesis by simp
qed

section \<open>Properties of the decimal rendering\<close>

lemma digit_char_inj: "a < 10 \<Longrightarrow> b < 10 \<Longrightarrow> digit_char a = digit_char b \<Longrightarrow> a = b"
proof -
  assume a: "a < 10" and b: "b < 10" and e: "digit_char a = digit_char b"
  from a have "a \<in> {0,1,2,3,4,5,6,7,8,9}" by auto
  moreover from b have "b \<in> {0,1,2,3,4,5,6,7,8,9}" by auto
  ultimately show "a = b" using e unfolding digit_char_def by auto
qed

lemma show_nat_nonempty: "show_nat n \<noteq> []"
  by (subst show_nat.simps) simp

lemma show_nat_length_ge2: "10 \<le> n \<Longrightarrow> 2 \<le> length (show_nat n)"
proof -
  assume "10 \<le> n"
  then have "show_nat n = show_nat (n div 10) @ [digit_char (n mod 10)]"
    by (subst show_nat.simps) simp
  moreover have "1 \<le> length (show_nat (n div 10))"
    using show_nat_nonempty [of "n div 10"] by (cases "show_nat (n div 10)") simp_all
  ultimately show ?thesis by simp
qed

lemma show_nat_inj: "show_nat m = show_nat n \<Longrightarrow> m = n"
proof (induction m arbitrary: n rule: show_nat.induct)
  case (1 m)
  show ?case
  proof (cases "m < 10")
    case m: True
    show ?thesis
    proof (cases "n < 10")
      case True
      with m "1.prems" show ?thesis
        by (simp add: show_nat.simps [of m] show_nat.simps [of n] digit_char_inj)
    next
      case False
      then have "2 \<le> length (show_nat n)" by (simp add: show_nat_length_ge2)
      moreover from m have "length (show_nat m) = 1" by (simp add: show_nat.simps [of m])
      ultimately show ?thesis using "1.prems" by simp
    qed
  next
    case m: False
    show ?thesis
    proof (cases "n < 10")
      case True
      then have "length (show_nat n) = 1" by (simp add: show_nat.simps [of n])
      moreover from m have "2 \<le> length (show_nat m)" by (simp add: show_nat_length_ge2)
      ultimately show ?thesis using "1.prems" by simp
    next
      case False
      from m have em: "show_nat m = show_nat (m div 10) @ [digit_char (m mod 10)]"
        by (subst show_nat.simps) simp
      from False have en: "show_nat n = show_nat (n div 10) @ [digit_char (n mod 10)]"
        by (subst show_nat.simps) simp
      from "1.prems" em en have p: "show_nat (m div 10) = show_nat (n div 10)"
        and d: "digit_char (m mod 10) = digit_char (n mod 10)" by simp_all
      from "1.IH" [OF m p] have "m div 10 = n div 10" .
      moreover from d have "m mod 10 = n mod 10" by (intro digit_char_inj) simp_all
      ultimately show ?thesis by (metis div_mult_mod_eq)
    qed
  qed
qed

lemma show_nat_eq_iff: "(show_nat m = show_nat n) = (m = n)"
  using show_nat_inj by blast

section \<open>Properties of the expression attribute handler\<close>


lemma reserved_lower: "map toLowerCase RESERVED_WORD_LIST = [
  ''abort'', ''absolute'', ''action'', ''add'', ''after'', ''agent'', ''aggregate'', ''all'',
     ''allocate'', ''alter'', ''analyze'', ''and'', ''any'', ''archive'', ''are'', ''array'',
     ''as'', ''asc'', ''ascii'', ''asensitive'', ''assertion'', ''asymmetric'', ''at'',
     ''atomic'', ''attach'', ''attribute'', ''auth'', ''authorization'', ''authorize'',
     ''auto'', ''avg'', ''back'', ''backup'', ''base'', ''batch'', ''before'', ''begin'',
     ''between'', ''bigint'', ''binary'', ''bit'', ''blob'', ''block'', ''boolean'', ''both'',
     ''breadth'', ''bucket'', ''bulk'', ''by'', ''byte'', ''call'', ''called'', ''calling'',
     ''capacity'', ''cascade'', ''cascaded'', ''case'', ''cast'', ''catalog'', ''char'',
     ''character'', ''check'', ''class'', ''clob'', ''close'', ''cluster'', ''clustered'',
     ''clustering'', ''clusters'', ''coalesce'', ''collate'', ''collation'', ''collection'',
     ''column'', ''columns'', ''combine'', ''comment'', ''commit'', ''compact'', ''compile'',
     ''compress'', ''condition'', ''conflict'', ''connect'', ''connection'', ''consistency'',
     ''consistent'', ''constraint'', ''constraints'', ''constructor'', ''consumed'',
     ''continue'', ''convert'', ''copy'', ''corresponding'', ''count'', ''counter'',
     ''create'', ''cross'', ''cube'', ''current'', ''cursor'', ''cycle'', ''data'',
     ''database'', ''date'', ''datetime'', ''day'', ''deallocate'', ''dec'', ''decimal'',
     ''declare'', ''default'', ''deferrable'', ''deferred'', ''define'', ''defined'',
     ''definition'', ''delete'', ''delimited'', ''depth'', ''deref'', ''desc'', ''describe'',
     ''descriptor'', ''detach'', ''deterministic'', ''diagnostics'', ''directories'',
     ''disable'', ''disconnect'', ''distinct'', ''distribute'', ''do'', ''domain'', ''double'',
     ''drop'', ''dump'', ''duration'', ''dynamic'', ''each'', ''element'', ''else'',
     ''elseif'', ''empty'', ''enable'', ''end'', ''equal'', ''equals'', ''error'', ''escape'',
     ''escaped'', ''eval'', ''evaluate'', ''exceeded'', ''except'', ''exception'',
     ''exceptions'', ''exclusive'', ''exec'', ''execute'', ''exists'', ''exit'', ''explain'',
     ''explode'', ''export'', ''expression'', ''extended'', ''external'', ''extract'',
     ''fail'', ''false'', ''family'', ''fetch'', ''fields'', ''file'', ''filter'',
     ''filtering'', ''final'', ''finish'', ''first'', ''fixed'', ''flattern'', ''float'',
     ''for'', ''force'', ''foreign'', ''format'', ''forward'', ''found'', ''free'', ''from'',
     ''full'', ''function'', ''functions'', ''general'', ''generate'', ''get'', ''glob'',
     ''global'', ''go'', ''goto'', ''grant'', ''greater'', ''group'', ''grouping'',
     ''handler'', ''hash'', ''have'', ''having'', ''heap'', ''hidden'', ''hold'', ''hour'',
     ''identified'', ''identity'', ''if'', ''ignore'', ''immediate'', ''import'', ''in'',
     ''including'', ''inclusive'', ''increment'', ''incremental'', ''index'', ''indexed'',
     ''indexes'', ''indicator'', ''infinite'', ''initially'', ''inline'', ''inner'',
     ''innter'', ''inout'', ''input'', ''insensitive'', ''insert'', ''instead'', ''int'',
     ''integer'', ''intersect'', ''interval'', ''into'', ''invalidate'', ''is'', ''isolation'',
     ''item'', ''items'', ''iterate'', ''join'', ''key'', ''keys'', ''lag'', ''language'',
     ''large'', ''last'', ''lateral'', ''lead'', ''leading'', ''leave'', ''left'', ''length'',
     ''less'', ''level'', ''like'', ''limit'', ''limited'', ''lines'', ''list'', ''load'',
     ''local'', ''localtime'', ''localtimestamp'', ''location'', ''locator'', ''lock'',
     ''locks'', ''log'', ''loged'', ''long'', ''loop'', ''lower'', ''map'', ''match'',
     ''materialized'', ''max'', ''maxlen'', ''member'', ''merge'', ''method'', ''metrics'',
     ''min'', ''minus'', ''minute'', ''missing'', ''mod'', ''mode'', ''modifies'', ''modify'',
     ''module'', ''month'', ''multi'', ''multiset'', ''name'', ''names'', ''national'',
     ''natural'', ''nchar'', ''nclob'', ''new'', ''next'', ''no'', ''none'', ''not'', ''null'',
     ''nullif'', ''number'', ''numeric'', ''object'', ''of'', ''offline'', ''offset'', ''old'',
     ''on'', ''online'', ''only'', ''opaque'', ''open'', ''operator'', ''option'', ''or'',
     ''order'', ''ordinality'', ''other'', ''others'', ''out'', ''outer'', ''output'',
     ''over'', ''overlaps'', ''override'', ''owner'', ''pad'', ''parallel'', ''parameter'',
     ''parameters'', ''partial'', ''partition'', ''partitioned'', ''partitions'', ''path'',
     ''percent'', ''percentile'', ''permission'', ''permissions'', ''pipe'', ''pipelined'',
     ''plan'', ''pool'', ''position'', ''precision'', ''prepare'', ''preserve'', ''primary'',
     ''prior'', ''private'', ''privileges'', ''procedure'', ''processed'', ''project'',
     ''projection'', ''property'', ''provisioning'', ''public'', ''put'', ''query'', ''quit'',
     ''quorum'', ''raise'', ''random'', ''range'', ''rank'', ''raw'', ''read'', ''reads'',
     ''real'', ''rebuild'', ''record'', ''recursive'', ''reduce'', ''ref'', ''reference'',
     ''references'', ''referencing'', ''regexp'', ''region'', ''reindex'', ''relative'',
     ''release'', ''remainder'', ''rename'', ''repeat'', ''replace'', ''request'', ''reset'',
     ''resignal'', ''resource'', ''response'', ''restore'', ''restrict'', ''result'',
     ''return'', ''returning'', ''returns'', ''reverse'', ''revoke'', ''right'', ''role'',
     ''roles'', ''rollback'', ''rollup'', ''routine'', ''row'', ''rows'', ''rule'', ''rules'',
     ''sample'', ''satisfies'', ''save'', ''savepoint'', ''scan'', ''schema'', ''scope'',
     ''scroll'', ''search'', ''second'', ''section'', ''segment'', ''segments'', ''select'',
     ''self'', ''semi'', ''sensitive'', ''separate'', ''sequence'', ''serializable'',
     ''session'', ''set'', ''sets'', ''shard'', ''share'', ''shared'', ''short'', ''show'',
     ''signal'', ''similar'', ''size'', ''skewed'', ''smallint'', ''snapshot'', ''some'',
     ''source'', ''space'', ''spaces'', ''sparse'', ''specific'', ''specifictype'', ''split'',
     ''sql'', ''sqlcode'', ''sqlerror'', ''sqlexception'', ''sqlstate'', ''sqlwarning'',
     ''start'', ''state'', ''static'', ''status'', ''storage'', ''store'', ''stored'',
     ''stream'', ''string'', ''struct'', ''style'', ''sub'', ''submultiset'', ''subpartition'',
     ''substring'', ''subtype'', ''sum'', ''super'', ''symmetric'', ''synonym'', ''system'',
     ''table'', ''tablesample'', ''temp'', ''temporary'', ''terminated'', ''text'', ''than'',
     ''then'', ''throughput'', ''time'', ''timestamp'', ''timezone'', ''tinyint'', ''to'',
     ''token'', ''total'', ''touch'', ''trailing'', ''transaction'', ''transform'',
     ''translate'', ''translation'', ''treat'', ''trigger'', ''trim'', ''true'', ''truncate'',
     ''ttl'', ''tuple'', ''type'', ''under'', ''undo'', ''union'', ''unique'', ''unit'',
     ''unknown'', ''unlogged'', ''unnest'', ''unprocessed'', ''unsigned'', ''until'',
     ''update'', ''upper'', ''url'', ''usage'', ''use'', ''user'', ''users'', ''using'',
     ''uuid'', ''vacuum'', ''value'', ''valued'', ''values'', ''varchar'', ''variable'',
     ''variance'', ''varint'', ''varying'', ''view'', ''views'', ''virtual'', ''void'',
     ''wait'', ''when'', ''whenever'', ''where'', ''while'', ''window'', ''with'', ''within'',
     ''without'', ''work'', ''wrapped'', ''write'', ''year'', ''zone'']"
  by code_simp

lemmas member_eval = list.set insert_iff list.inject char.inject simp_thms empty_iff list.distinct

lemma reserved_lower_no_dot: "list_all (\<lambda>x. CHR ''.'' \<notin> set x) (map toLowerCase RESERVED_WORD_LIST)"
  unfolding reserved_lower by code_simp

lemma toLowerCase_char_cases:
  "toLowerCase_char c = c \<or> toLowerCase_char c \<in> set ''abcdefghijklmnopqrstuvwxyz''"
proof (cases "map_of (zip ''ABCDEFGHIJKLMNOPQRSTUVWXYZ'' ''abcdefghijklmnopqrstuvwxyz'') c")
  case None
  then show ?thesis by (simp only: toLowerCase_char_def option.case simp_thms)
next
  case (Some l)
  then have "(c, l) \<in> set (zip ''ABCDEFGHIJKLMNOPQRSTUVWXYZ'' ''abcdefghijklmnopqrstuvwxyz'')"
    by (rule map_of_SomeD)
  then have "l \<in> set ''abcdefghijklmnopqrstuvwxyz''" by (rule set_zip_rightD)
  with Some show ?thesis by (simp only: toLowerCase_char_def option.case simp_thms)
qed

lemma toLowerCase_char_dot: "(toLowerCase_char c = CHR ''.'') = (c = CHR ''.'')"
proof
  assume e: "toLowerCase_char c = CHR ''.''"
  have "CHR ''.'' \<notin> set ''abcdefghijklmnopqrstuvwxyz''" by simp
  with e toLowerCase_char_cases [of c] show "c = CHR ''.''" by metis
next
  assume "c = CHR ''.''"
  then show "toLowerCase_char c = CHR ''.''" by (simp add: toLowerCase_char_def)
qed

lemma reserved_no_dot: "isReservedWord w \<Longrightarrow> CHR ''.'' \<notin> set w"
proof
  assume r: "isReservedWord w" and d: "CHR ''.'' \<in> set w"
  from r have "toLowerCase w \<in> set (map toLowerCase RESERVED_WORD_LIST)"
    by (simp add: isReservedWord_def DYNAMODB_RESERVED_WORDS_def)
  with reserved_lower_no_dot have n: "CHR ''.'' \<notin> set (toLowerCase w)"
    unfolding list_all_iff by blast
  from d have "toLowerCase_char CHR ''.'' \<in> set (toLowerCase w)"
    unfolding toLowerCase_def by (simp only: set_map) (rule imageI)
  moreover have "toLowerCase_char CHR ''.'' = CHR ''.''"
    using toLowerCase_char_dot by blast
  ultimately show False using n by simp
qed

lemma split_on_no_sep: "c \<notin> set s \<Longrightarrow> split_on c s = [s]"
proof -
  assume "c \<notin> set s"
  then have a: "\<forall>x\<in>set s. x \<noteq> c" by auto
  then have d: "dropWhile (\<lambda>x. x \<noteq> c) s = []" and t: "takeWhile (\<lambda>x. x \<noteq> c) s = s"
    by simp_all
  show ?thesis by (subst split_on.simps) (simp only: d t list.case)
qed

lemma getExpressionAttributeName_reserved:
  "isReservedWord w \<Longrightarrow> getExpressionAttributeName h w = processPart h w"
  by (simp add: getExpressionAttributeName_def split_on_no_sep reserved_no_dot split: prod.splits)

lemma map_of_update: "map_of (AList.update k v al) = (map_of al)(k \<mapsto> v)"
  by (rule AList.update_conv')

lemma names_wf_new: "names_wf new_ExpressionAttributeHandler"
  by (simp add: names_wf_def new_ExpressionAttributeHandler_def)

lemma processPart_wf:
  assumes w: "names_wf h" and s: "processPart h part = (p, h')"
  shows "names_wf h' \<and> nameCount h \<le> nameCount h'"
proof (cases "(isReservedWord part \<or> CHR ''-'' \<in> set part \<or> CHR '' '' \<in> set part) \<and>
    map_of (attributeNameMap h) part = None")
  case False
  with s have "h' = h"
    unfolding processPart_def by (cases "map_of (attributeNameMap h) part") (simp_all split: if_splits)
  with w show ?thesis by simp
next
  case True
  let ?k = "nameCount h + 1"
  from True s have h': "h' = h\<lparr>nameCount := ?k,
      attributeNameMap := AList.update part (''#n'' @ show_nat ?k) (attributeNameMap h),
      expressionAttributeNames := AList.update (''#n'' @ show_nat ?k) part (expressionAttributeNames h)\<rparr>"
    unfolding processPart_def Let_def by auto
  have "names_wf h'"
    unfolding names_wf_def
  proof (intro allI impI)
    fix a q
    assume m: "map_of (attributeNameMap h') a = Some q"
    show "\<exists>k. 1 \<le> k \<and> k \<le> nameCount h' \<and> q = ''#n'' @ show_nat k"
    proof (cases "a = part")
      case True
      with m h' have "q = ''#n'' @ show_nat ?k" by (simp add: map_of_update)
      with h' show ?thesis by (intro exI [of _ ?k]) simp
    next
      case False
      with m h' have "map_of (attributeNameMap h) a = Some q" by (simp add: map_of_update)
      with w obtain k where "1 \<le> k" "k \<le> nameCount h" "q = ''#n'' @ show_nat k"
        unfolding names_wf_def by blast
      with h' show ?thesis by (intro exI [of _ k]) simp
    qed
  qed
  with h' show ?thesis by simp
qed

lemma processParts_wf:
  "names_wf h \<Longrightarrow> processParts h parts = (ps, h') \<Longrightarrow> names_wf h' \<and> nameCount h \<le> nameCount h'"
proof (induction parts arbitrary: h ps)
  case Nil
  then show ?case by simp
next
  case (Cons part parts)
  obtain p h1 where s: "processPart h part = (p, h1)" by (cases "processPart h part")
  from Cons.prems(2) s obtain qs where r: "processParts h1 parts = (qs, h')"
    by (auto split: prod.splits)
  from processPart_wf [OF Cons.prems(1) s] have w1: "names_wf h1" and c1: "nameCount h \<le> nameCount h1"
    by simp_all
  from Cons.IH [OF w1 r] c1 show ?case by simp
qed

lemma getExpressionAttributeName_wf:
  "names_wf h \<Longrightarrow> getExpressionAttributeName h a = (p, h') \<Longrightarrow> names_wf h' \<and> nameCount h \<le> nameCount h'"
  unfolding getExpressionAttributeName_def
  by (auto split: prod.splits dest: processParts_wf)

lemma resolveAll_wf:
  "names_wf h \<Longrightarrow> resolveAll h as = (ps, h') \<Longrightarrow> names_wf h'"
proof (induction as arbitrary: h ps)
  case Nil
  then show ?case by simp
next
  case (Cons a as)
  obtain p h1 where s: "getExpressionAttributeName h a = (p, h1)"
    by (cases "getExpressionAttributeName h a")
  from Cons.prems(2) s obtain qs where r: "resolveAll h1 as = (qs, h')"
    by (auto split: prod.splits)
  from getExpressionAttributeName_wf [OF Cons.prems(1) s] have "names_wf h1" by simp
  from Cons.IH [OF this r] show ?case .
qed

lemma processPart_reserved:
  assumes w: "names_wf h" and r: "isReservedWord part"
  shows "\<exists>k h1. processPart h part = (''#n'' @ show_nat k, h1) \<and> 1 \<le> k \<and> k \<le> nameCount h1 \<and>
     nameCount h \<le> nameCount h1 \<and>
     (if map_of (attributeNameMap h) part = None
      then k = nameCount h + 1 \<and> nameCount h1 = k
      else nameCount h1 = nameCount h) \<and>
     processPart h1 part = (''#n'' @ show_nat k, h1)"
proof (cases "map_of (attributeNameMap h) part")
  case None
  let ?k = "nameCount h + 1"
  let ?h1 = "h\<lparr>nameCount := ?k,
      attributeNameMap := AList.update part (''#n'' @ show_nat ?k) (attributeNameMap h),
      expressionAttributeNames := AList.update (''#n'' @ show_nat ?k) part (expressionAttributeNames h)\<rparr>"
  from None r have a: "processPart h part = (''#n'' @ show_nat ?k, ?h1)"
    by (simp add: processPart_def Let_def)
  from r have b: "processPart ?h1 part = (''#n'' @ show_nat ?k, ?h1)"
    by (simp add: processPart_def map_of_update)
  from a b None show ?thesis by (intro exI [of _ ?k] exI [of _ ?h1]) simp
next
  case (Some p)
  with w obtain k where k: "1 \<le> k" "k \<le> nameCount h" "p = ''#n'' @ show_nat k"
    unfolding names_wf_def by blast
  from Some r have "processPart h part = (p, h)" by (simp add: processPart_def)
  with k Some show ?thesis by (intro exI [of _ k] exI [of _ h]) simp
qed

lemma lower_name: "toLowerCase ''name'' = ''name''"
  by (simp add: toLowerCase_def toLowerCase_char_def)

lemma lower_status: "toLowerCase ''status'' = ''status''"
  by (simp add: toLowerCase_def toLowerCase_char_def)

lemma lower_begins_with: "toLowerCase ''begins_with'' = ''begins_with''"
  by (simp add: toLowerCase_def toLowerCase_char_def)

lemma reserved_name: "isReservedWord ''name''"
  unfolding isReservedWord_def DYNAMODB_RESERVED_WORDS_def reserved_lower lower_name
  by (simp only: member_eval)

lemma reserved_status: "isReservedWord ''status''"
  unfolding isReservedWord_def DYNAMODB_RESERVED_WORDS_def reserved_lower lower_status
  by (simp only: member_eval)

lemma not_reserved_begins_with: "\<not> isReservedWord ''begins_with''"
  unfolding isReservedWord_def DYNAMODB_RESERVED_WORDS_def reserved_lower lower_begins_with
  by (simp only: member_eval)

lemma handler_extends_refl: "handler_extends h h"
  by (simp add: handler_extends_def)

lemma handler_extends_trans:
  "handler_extends h1 h2 \<Longrightarrow> handler_extends h2 h3 \<Longrightarrow> handler_extends h1 h3"
  unfolding handler_extends_def by (meson le_trans)

lemma processPart_extends:
  assumes s: "processPart h part = (p, h')"
  shows "handler_extends h h'"
proof (cases "(isReservedWord part \<or> CHR ''-'' \<in> set part \<or> CHR '' '' \<in> set part) \<and>
    map_of (attributeNameMap h) part = None")
  case False
  with s have "h' = h"
    unfolding processPart_def by (cases "map_of (attributeNameMap h) part") (simp_all split: if_splits)
  then show ?thesis by (simp add: handler_extends_refl)
next
  case True
  let ?k = "nameCount h + 1"
  from True s have h': "h' = h\<lparr>nameCount := ?k,
      attributeNameMap := AList.update part (''#n'' @ show_nat ?k) (attributeNameMap h),
      expressionAttributeNames := AList.update (''#n'' @ show_nat ?k) part (expressionAttributeNames h)\<rparr>"
    unfolding processPart_def Let_def by auto
  show ?thesis
    unfolding handler_extends_def
  proof (intro conjI allI impI)
    show "nameCount h \<le> nameCount h'" using h' by simp
  next
    fix a q
    assume m: "map_of (attributeNameMap h) a = Some q"
    with True have "a \<noteq> part" by auto
    with m h' show "map_of (attributeNameMap h') a = Some q" by (simp add: map_of_update)
  qed
qed

lemma processParts_extends:
  "processParts h parts = (ps, h') \<Longrightarrow> handler_extends h h'"
proof (induction parts arbitrary: h ps)
  case Nil
  then show ?case by (simp add: handler_extends_refl)
next
  case (Cons part parts)
  obtain p h1 where s: "processPart h part = (p, h1)" by (cases "processPart h part")
  from Cons.prems s obtain qs where r: "processParts h1 parts = (qs, h')"
    by (auto split: prod.splits)
  from handler_extends_trans [OF processPart_extends [OF s] Cons.IH [OF r]] show ?case .
qed

lemma getExpressionAttributeName_extends:
  "getExpressionAttributeName h a = (p, h') \<Longrightarrow> handler_extends h h'"
  unfolding getExpressionAttributeName_def
  by (auto split: prod.splits dest: processParts_extends)

lemma resolveAll_extends:
  "resolveAll h as = (ps, h') \<Longrightarrow> handler_extends h h'"
proof (induction as arbitrary: h ps)
  case Nil
  then show ?case by (simp add: handler_extends_refl)
next
  case (Cons a as)
  obtain p h1 where s: "getExpressionAttributeName h a = (p, h1)"
    by (cases "getExpressionAttributeName h a")
  from Cons.prems s obtain qs where r: "resolveAll h1 as = (qs, h')"
    by (auto split: prod.splits)
  from handler_extends_trans [OF getExpressionAttributeName_extends [OF s] Cons.IH [OF r]]
  show ?case .
qed

lemma rewriteMatches_extends:
  "rewriteMatches h e attrs = (e', h') \<Longrightarrow> handler_extends h h'"
proof (induction attrs arbitrary: h e)
  case Nil
  then show ?case by (simp add: handler_extends_refl)
next
  case (Cons attr attrs)
  show ?case
  proof (cases "isReservedWord attr")
    case True
    obtain p h1 where s: "getExpressionAttributeName h attr = (p, h1)"
      by (cases "getExpressionAttributeName h attr")
    with True Cons.prems have r: "rewriteMatches h1 (replaceAttr attr p None e) attrs = (e', h')"
      by simp
    from handler_extends_trans [OF getExpressionAttributeName_extends [OF s] Cons.IH [OF r]]
    show ?thesis .
  next
    case False
    with Cons.prems have "rewriteMatches h e attrs = (e', h')" by simp
    from Cons.IH [OF this] show ?thesis .
  qed
qed

lemma rewriteMatches_wf:
  "names_wf h \<Longrightarrow> rewriteMatches h e attrs = (e', h') \<Longrightarrow> names_wf h'"
proof (induction attrs arbitrary: h e)
  case Nil
  then show ?case by simp
next
  case (Cons attr attrs)
  show ?case
  proof (cases "isReservedWord attr")
    case True
    obtain p h1 where s: "getExpressionAttributeName h attr = (p, h1)"
      by (cases "getExpressionAttributeName h attr")
    with True Cons.prems(2) have r: "rewriteMatches h1 (replaceAttr attr p None e) attrs = (e', h')"
      by simp
    from getExpressionAttributeName_wf [OF Cons.prems(1) s] have "names_wf h1" by simp
    from Cons.IH [OF this r] show ?thesis .
  next
    case False
    with Cons.prems(2) have "rewriteMatches h e attrs = (e', h')" by simp
    from Cons.IH [OF Cons.prems(1) this] show ?thesis .
  qed
qed

lemma handler_step_wf: "names_wf h \<Longrightarrow> names_wf (handler_step h c)"
proof (cases c)
  case (GetExpressionAttributeName a)
  assume "names_wf h"
  from getExpressionAttributeName_wf [OF this, of a] GetExpressionAttributeName show ?thesis
    by (cases "getExpressionAttributeName h a") simp
next
  case (ProcessProjectionExpression as)
  assume "names_wf h"
  from resolveAll_wf [OF this, of as] ProcessProjectionExpression show ?thesis
    by (cases "resolveAll h as") (simp add: processProjectionExpression_def)
next
  case (ProcessKeyConditionExpression e)
  assume "names_wf h"
  from rewriteMatches_wf [OF this, of e "attributeMatches None e"] ProcessKeyConditionExpression
  show ?thesis
    by (cases "rewriteMatches h e (attributeMatches None e)")
      (simp add: processKeyConditionExpression_def)
qed

lemma handler_step_extends: "handler_extends h (handler_step h c)"
proof (cases c)
  case (GetExpressionAttributeName a)
  with getExpressionAttributeName_extends [of h a] show ?thesis
    by (cases "getExpressionAttributeName h a") simp
next
  case (ProcessProjectionExpression as)
  with resolveAll_extends [of h as] show ?thesis
    by (cases "resolveAll h as") (simp add: processProjectionExpression_def)
next
  case (ProcessKeyConditionExpression e)
  with rewriteMatches_extends [of h e "attributeMatches None e"] show ?thesis
    by (cases "rewriteMatches h e (attributeMatches None e)")
      (simp add: processKeyConditionExpression_def)
qed

lemma handler_after_wf: "names_wf h \<Longrightarrow> names_wf (handler_after h calls)"
  unfolding handler_after_def
  by (induction calls arbitrary: h) (simp_all add: handler_step_wf)

lemma handler_after_extends: "handler_extends h (handler_after h calls)"
  unfolding handler_after_def
proof (induction calls arbitrary: h)
  case Nil
  show ?case by (simp add: handler_extends_refl)
next
  case (Cons c calls)
  from handler_extends_trans [OF handler_step_extends [of h c] Cons [of "handler_step h c"]]
  show ?case by simp
qed

lemma processPart_memoised:
  "isReservedWord part \<Longrightarrow> map_of (attributeNameMap h) part = Some p \<Longrightarrow>
   processPart h part = (p, h)"
  by (simp add: processPart_def)

lemma processPart_memoises:
  "isReservedWord part \<Longrightarrow> processPart h part = (p, h1) \<Longrightarrow>
   map_of (attributeNameMap h1) part = Some p"
  by (cases "map_of (attributeNameMap h) part")
    (auto simp: processPart_def Let_def map_of_update)

lemma names_wf_fresh:
  assumes "names_wf h"
  shows "map_of (attributeNameMap h) a \<noteq> Some (''#n'' @ show_nat (nameCount h + 1))"
proof
  assume "map_of (attributeNameMap h) a = Some (''#n'' @ show_nat (nameCount h + 1))"
  with assms obtain k where k: "k \<le> nameCount h"
    and "''#n'' @ show_nat (nameCount h + 1) = ''#n'' @ show_nat k"
    unfolding names_wf_def by blast
  then have "nameCount h + 1 = k" by (simp add: show_nat_eq_iff)
  with k show False by simp
qed

text \<open>
  C8. Take the handler \<open>h\<close> reached from a new one by any sequence of resolving calls
  (\<^verbatim>\<open>getExpressionAttributeName\<close>, \<^verbatim>\<open>processProjectionExpression\<close>,
  \<^verbatim>\<open>processKeyConditionExpression\<close>). Resolving a reserved word \<open>w\<close> on it returns
  \<^verbatim>\<open>#n\<close> followed by a counter value \<open>k\<close> between 1 and the handler's counter, and the
  counter does not decrease. A word met for the first time gets the next counter value, which
  no name resolved before has; a word met before leaves the handler as it is. And after any
  further sequence of resolving calls, resolving \<open>w\<close> again returns the same placeholder and
  changes nothing. (\<^verbatim>\<open>reset()\<close>, which empties the handler and starts the numbering
  again, is not among the calls.)
\<close>

theorem C8_reserved_word_placeholder:
  assumes "isReservedWord w"
  shows "\<exists>k h1.
     getExpressionAttributeName (handler_after new_ExpressionAttributeHandler calls) w =
       (''#n'' @ show_nat k, h1) \<and>
     1 \<le> k \<and> k \<le> nameCount h1 \<and>
     nameCount (handler_after new_ExpressionAttributeHandler calls) \<le> nameCount h1 \<and>
     (if map_of (attributeNameMap (handler_after new_ExpressionAttributeHandler calls)) w = None
      then k = nameCount (handler_after new_ExpressionAttributeHandler calls) + 1 \<and>
           nameCount h1 = k \<and>
           (\<forall>a. map_of (attributeNameMap (handler_after new_ExpressionAttributeHandler calls)) a \<noteq>
                  Some (''#n'' @ show_nat k))
      else h1 = handler_after new_ExpressionAttributeHandler calls) \<and>
     (\<forall>later. getExpressionAttributeName (handler_after h1 later) w =
                (''#n'' @ show_nat k, handler_after h1 later) \<and>
              nameCount h1 \<le> nameCount (handler_after h1 later))"
proof -
  let ?h = "handler_after new_ExpressionAttributeHandler calls"
  have wf: "names_wf ?h" by (rule handler_after_wf [OF names_wf_new])
  from processPart_reserved [OF wf assms] obtain k h1 where
    p: "processPart ?h w = (''#n'' @ show_nat k, h1)"
    and k: "1 \<le> k" "k \<le> nameCount h1" "nameCount ?h \<le> nameCount h1"
    and c: "if map_of (attributeNameMap ?h) w = None
      then k = nameCount ?h + 1 \<and> nameCount h1 = k else nameCount h1 = nameCount ?h"
    by blast
  have g: "getExpressionAttributeName ?h w = (''#n'' @ show_nat k, h1)"
    using p by (simp only: getExpressionAttributeName_reserved [OF assms])
  have i: "if map_of (attributeNameMap ?h) w = None
      then k = nameCount ?h + 1 \<and> nameCount h1 = k \<and>
           (\<forall>a. map_of (attributeNameMap ?h) a \<noteq> Some (''#n'' @ show_nat k))
      else h1 = ?h"
  proof (cases "map_of (attributeNameMap ?h) w")
    case None
    with c have "k = nameCount ?h + 1" "nameCount h1 = k" by simp_all
    with None names_wf_fresh [OF wf] show ?thesis by simp
  next
    case (Some q)
    from processPart_memoised [OF assms Some] p have "h1 = ?h" by simp
    with Some show ?thesis by simp
  qed
  have m: "map_of (attributeNameMap h1) w = Some (''#n'' @ show_nat k)"
    by (rule processPart_memoises [OF assms p])
  have l: "\<forall>later. getExpressionAttributeName (handler_after h1 later) w =
                (''#n'' @ show_nat k, handler_after h1 later) \<and>
              nameCount h1 \<le> nameCount (handler_after h1 later)"
  proof
    fix later
    from handler_after_extends [of h1 later] m
    have "map_of (attributeNameMap (handler_after h1 later)) w = Some (''#n'' @ show_nat k)"
      and n: "nameCount h1 \<le> nameCount (handler_after h1 later)"
      unfolding handler_extends_def by blast+
    from processPart_memoised [OF assms this(1)] n
    show "getExpressionAttributeName (handler_after h1 later) w =
                (''#n'' @ show_nat k, handler_after h1 later) \<and>
              nameCount h1 \<le> nameCount (handler_after h1 later)"
      by (simp only: getExpressionAttributeName_reserved [OF assms] simp_thms)
  qed
  from g k i l show ?thesis by blast
qed

lemma resolve_status_new:
  "getExpressionAttributeName new_ExpressionAttributeHandler ''status'' =
     (''#n1'', \<lparr>expressionAttributeNames = [(''#n1'', ''status'')],
        attributeNameMap = [(''status'', ''#n1'')], nameCount = 1\<rparr>)"
  by (simp add: getExpressionAttributeName_reserved [OF reserved_status]
      processPart_def reserved_status new_ExpressionAttributeHandler_def Let_def
      show_nat.simps digit_char_def)

lemma resolve_name_after_status:
  "getExpressionAttributeName
     (handler_after new_ExpressionAttributeHandler [GetExpressionAttributeName ''status'']) ''name'' =
     (''#n2'', \<lparr>expressionAttributeNames = [(''#n1'', ''status''), (''#n2'', ''name'')],
        attributeNameMap = [(''status'', ''#n1''), (''name'', ''#n2'')], nameCount = 2\<rparr>)"
  by (simp add: handler_after_def resolve_status_new
      getExpressionAttributeName_reserved [OF reserved_name]
      processPart_def reserved_name Let_def show_nat.simps digit_char_def)

theorem C8_reserved_word_placeholder_witness:
  "isReservedWord ''name'' \<and>
   getExpressionAttributeName
     (handler_after new_ExpressionAttributeHandler [GetExpressionAttributeName ''status'']) ''name'' =
     (''#n2'', \<lparr>expressionAttributeNames = [(''#n1'', ''status''), (''#n2'', ''name'')],
        attributeNameMap = [(''status'', ''#n1''), (''name'', ''#n2'')], nameCount = 2\<rparr>) \<and>
   getExpressionAttributeName
     (handler_after
        \<lparr>expressionAttributeNames = [(''#n1'', ''status''), (''#n2'', ''name'')],
         attributeNameMap = [(''status'', ''#n1''), (''name'', ''#n2'')], nameCount = 2\<rparr>
        [GetExpressionAttributeName ''my-field'',
         ProcessProjectionExpression [''status'', ''id''],
         ProcessKeyConditionExpression ''size = :s'']) ''name'' =
     (''#n2'',
      handler_after
        \<lparr>expressionAttributeNames = [(''#n1'', ''status''), (''#n2'', ''name'')],
         attributeNameMap = [(''status'', ''#n1''), (''name'', ''#n2'')], nameCount = 2\<rparr>
        [GetExpressionAttributeName ''my-field'',
         ProcessProjectionExpression [''status'', ''id''],
         ProcessKeyConditionExpression ''size = :s''])"
proof -
  let ?H1 = "\<lparr>expressionAttributeNames = [(''#n1'', ''status''), (''#n2'', ''name'')],
         attributeNameMap = [(''status'', ''#n1''), (''name'', ''#n2'')], nameCount = 2\<rparr>"
  let ?L = "[GetExpressionAttributeName ''my-field'',
         ProcessProjectionExpression [''status'', ''id''],
         ProcessKeyConditionExpression ''size = :s'']"
  from C8_reserved_word_placeholder [OF reserved_name, of "[GetExpressionAttributeName ''status'']"]
  obtain k h1 where
    g: "getExpressionAttributeName
          (handler_after new_ExpressionAttributeHandler [GetExpressionAttributeName ''status''])
          ''name'' = (''#n'' @ show_nat k, h1)"
    and l: "\<forall>later. getExpressionAttributeName (handler_after h1 later) ''name'' =
                (''#n'' @ show_nat k, handler_after h1 later) \<and>
              nameCount h1 \<le> nameCount (handler_after h1 later)"
    by blast
  from trans [OF g [symmetric] resolve_name_after_status]
  have e: "''#n'' @ show_nat k = ''#n2''" "h1 = ?H1"
    by auto
  from l have "getExpressionAttributeName (handler_after h1 ?L) ''name'' =
      (''#n'' @ show_nat k, handler_after h1 ?L)"
    by blast
  then have "getExpressionAttributeName (handler_after ?H1 ?L) ''name'' =
      (''#n2'', handler_after ?H1 ?L)"
    by (simp only: e)
  with reserved_name resolve_name_after_status show ?thesis by (intro conjI)
qed

lemma resolve_name_new:
  "getExpressionAttributeName new_ExpressionAttributeHandler ''name'' =
     (''#n1'', \<lparr>expressionAttributeNames = [(''#n1'', ''name'')],
        attributeNameMap = [(''name'', ''#n1'')], nameCount = 1\<rparr>)"
  by (simp add: getExpressionAttributeName_reserved [OF reserved_name]
      processPart_def reserved_name new_ExpressionAttributeHandler_def Let_def
      show_nat.simps digit_char_def)

lemma matches_name_eq: "attributeMatches None ''name = :v'' = [''name'']"
  by code_simp

lemma replace_name_eq: "replaceAttr ''name'' ''#n1'' None ''name = :v'' = ''name = :v''"
  by code_simp

lemma matches_status_expr:
  "attributeMatches None ''begins_with(#status, :status) AND contains(status, :v)'' =
     [''begins_with'', ''status'']"
  by code_simp

lemma replace_status_expr:
  "replaceAttr ''status'' ''#n1'' None ''begins_with(#status, :status) AND contains(status, :v)'' =
     ''begins_with(##n1, :#n1) AND contains(#n1, :v)''"
  by code_simp

text \<open>
  C9. The code at two inputs. In \<^verbatim>\<open>name = :v\<close> the reserved bare identifier
  \<^verbatim>\<open>name\<close> is found and given the placeholder \<^verbatim>\<open>#n1\<close>, which is entered in the
  names, but the expression comes back unchanged: the replacement pattern refuses a word
  followed by \<^verbatim>\<open>=\<close>. In
  \<^verbatim>\<open>begins_with(#status, :status) AND contains(status, :v)\<close> the only reserved match is
  the bare \<^verbatim>\<open>status\<close>, and its global replacement also rewrites the escaped name
  \<^verbatim>\<open>#status\<close> to \<^verbatim>\<open>##n1\<close> and the value placeholder \<^verbatim>\<open>:status\<close> to
  \<^verbatim>\<open>:#n1\<close>.
\<close>

theorem C9_processKeyConditionExpression_at_inputs:
  "fst (processKeyConditionExpression new_ExpressionAttributeHandler ''name = :v'') =
     \<lparr>keyConditionExpression = ''name = :v'',
      kcr_expressionAttributeNames = Some [(''#n1'', ''name'')]\<rparr> \<and>
   fst (processKeyConditionExpression new_ExpressionAttributeHandler
          ''begins_with(#status, :status) AND contains(status, :v)'') =
     \<lparr>keyConditionExpression = ''begins_with(##n1, :#n1) AND contains(#n1, :v)'',
      kcr_expressionAttributeNames = Some [(''#n1'', ''status'')]\<rparr>"
  by (simp add: processKeyConditionExpression_def matches_name_eq matches_status_expr
      reserved_name reserved_status not_reserved_begins_with resolve_name_new resolve_status_new
      replace_name_eq replace_status_expr getExpressionAttributeNames_def)


section \<open>Properties of the update compiler\<close>

lemma foldl_group_push_head:
  "foldl group_push ((k, ms) # acc) us =
     (k, ms @ filter (\<lambda>x. fu_operation x = k) us) #
       foldl group_push acc (filter (\<lambda>x. fu_operation x \<noteq> k) us)"
proof (induction us arbitrary: ms acc)
  case Nil
  show ?case by simp
next
  case (Cons u us)
  show ?case
  proof (cases "k = fu_operation u")
    case True
    then show ?thesis using Cons.IH [of "ms @ [u]" acc] by simp
  next
    case False
    then show ?thesis using Cons.IH [of ms "group_push acc u"] by auto
  qed
qed

lemma groupedUpdates_spec: "groupedUpdates us = spec_group_by_verb us"
proof (induction us rule: spec_group_by_verb.induct)
  case 1
  show ?case by (simp add: groupedUpdates_def)
next
  case (2 u us)
  have "groupedUpdates (u # us) = foldl group_push [(fu_operation u, [u])] us"
    by (simp add: groupedUpdates_def)
  also have "\<dots> = (fu_operation u, [u] @ filter (\<lambda>x. fu_operation x = fu_operation u) us) #
      foldl group_push [] (filter (\<lambda>x. fu_operation x \<noteq> fu_operation u) us)"
    by (rule foldl_group_push_head)
  also have "\<dots> = spec_group_by_verb (u # us)"
    using "2.IH" by (simp add: groupedUpdates_def)
  finally show ?case .
qed

lemma spec_group_members:
  "(opn, ms) \<in> set (spec_group_by_verb us) \<Longrightarrow> ms \<noteq> [] \<and> set ms \<subseteq> set us"
proof (induction us rule: spec_group_by_verb.induct)
  case 1
  then show ?case by simp
next
  case (2 u us)
  from "2.prems" consider
    (hd) "opn = fu_operation u" "ms = u # filter (\<lambda>x. fu_operation x = fu_operation u) us"
    | (tl) "(opn, ms) \<in> set (spec_group_by_verb (filter (\<lambda>x. fu_operation x \<noteq> fu_operation u) us))"
    by auto
  then show ?case
  proof cases
    case hd
    then show ?thesis by auto
  next
    case tl
    from "2.IH" [OF tl] show ?thesis by auto
  qed
qed


lemma spec_group_verb:
  "(opn, ms) \<in> set (spec_group_by_verb us) \<Longrightarrow> u \<in> set ms \<Longrightarrow> fu_operation u = opn"
proof (induction us rule: spec_group_by_verb.induct)
  case 1
  then show ?case by simp
next
  case (2 u0 us)
  from "2.prems"(1) consider
    (hd) "opn = fu_operation u0" "ms = u0 # filter (\<lambda>x. fu_operation x = fu_operation u0) us"
    | (tl) "(opn, ms) \<in> set (spec_group_by_verb (filter (\<lambda>x. fu_operation x \<noteq> fu_operation u0) us))"
    by auto
  then show ?case
  proof cases
    case hd
    with "2.prems"(2) show ?thesis by auto
  next
    case tl
    from "2.IH" [OF tl "2.prems"(2)] show ?thesis .
  qed
qed

lemma compileUpdate_spec:
  assumes "fu_operation u = opn"
  shows "\<exists>vals'. compileUpdate opn (h, vals, n) u =
     (fst (spec_member h n u), (fst (snd (spec_member h n u)), vals', snd (snd (spec_member h n u))))"
  using assms
  by (cases opn)
    (auto simp: compileUpdate_def spec_member_def spec_member_clause_def spec_clause_def
      spec_append_clause_def spec_prepend_clause_def Let_def split: prod.splits)

lemma compileUpdates_spec:
  "\<forall>u \<in> set us. fu_operation u = opn \<Longrightarrow>
   \<exists>vals'. compileUpdates opn (h, vals, n) us =
     (fst (spec_clauses h n us),
      (fst (snd (spec_clauses h n us)), vals', snd (snd (spec_clauses h n us))))"
proof (induction us arbitrary: h vals n)
  case Nil
  show ?case by simp
next
  case (Cons u us)
  from Cons.prems have uo: "fu_operation u = opn" and rest: "\<forall>u \<in> set us. fu_operation u = opn"
    by simp_all
  obtain c h1 n1 where m: "spec_member h n u = (c, h1, n1)"
    by (cases "spec_member h n u") auto
  from compileUpdate_spec [OF uo, of h vals n] m obtain vals1 where
    c: "compileUpdate opn (h, vals, n) u = (c, (h1, vals1, n1))"
    by auto
  from Cons.IH [OF rest, of h1 vals1 n1] obtain vals' where
    "compileUpdates opn (h1, vals1, n1) us =
        (fst (spec_clauses h1 n1 us),
         (fst (snd (spec_clauses h1 n1 us)), vals', snd (snd (spec_clauses h1 n1 us))))"
    by blast
  with m c show ?case by (simp split: prod.splits)
qed

lemma compileGroups_spec:
  "\<forall>(opn, ms) \<in> set groups. ms \<noteq> [] \<and> (\<forall>u \<in> set ms. fu_operation u = opn) \<Longrightarrow>
   fst (compileGroups (h, vals, n) groups) = spec_verbs h n groups"
proof (induction groups arbitrary: h vals n)
  case Nil
  show ?case by simp
next
  case (Cons g groups)
  obtain opn ms where g: "g = (opn, ms)" by (cases g)
  from Cons.prems g have ne: "ms \<noteq> []" and vb: "\<forall>u \<in> set ms. fu_operation u = opn"
    and rest: "\<forall>(opn, ms) \<in> set groups. ms \<noteq> [] \<and> (\<forall>u \<in> set ms. fu_operation u = opn)"
    by simp_all
  from compileUpdates_spec [OF vb, of h vals n] obtain vals' where
    c: "compileUpdates opn (h, vals, n) ms =
      (fst (spec_clauses h n ms),
       (fst (snd (spec_clauses h n ms)), vals', snd (snd (spec_clauses h n ms))))"
    by blast
  from Cons.IH [OF rest, of "fst (snd (spec_clauses h n ms))" vals' "snd (snd (spec_clauses h n ms))"]
  show ?case using g ne c by (auto split: prod.splits)
qed

lemma updateItem_command_refines_spec:
  "UpdateExpression (updateItem_command us options) = spec_update_expression us"
proof -
  have "\<forall>(opn, ms) \<in> set (spec_group_by_verb us).
      ms \<noteq> [] \<and> (\<forall>u \<in> set ms. fu_operation u = opn)"
  proof (intro ballI, clarify)
    fix opn ms
    assume m: "(opn, ms) \<in> set (spec_group_by_verb us)"
    from spec_group_members [OF m] spec_group_verb [OF m]
    show "ms \<noteq> [] \<and> (\<forall>u\<in>set ms. fu_operation u = opn)"
      by blast
  qed
  from compileGroups_spec [OF this, of new_ExpressionAttributeHandler "[]" 0]
  show ?thesis
    by (auto simp: updateItem_command_def spec_update_expression_def groupedUpdates_spec
        Let_def split: prod.splits)
qed

lemma lower_a: "toLowerCase ''a'' = ''a''"
  by (simp add: toLowerCase_def toLowerCase_char_def)

lemma lower_b: "toLowerCase ''b'' = ''b''"
  by (simp add: toLowerCase_def toLowerCase_char_def)

lemma lower_interests: "toLowerCase ''interests'' = ''interests''"
  by (simp add: toLowerCase_def toLowerCase_char_def)

lemma not_reserved_a: "\<not> isReservedWord ''a''"
  unfolding isReservedWord_def DYNAMODB_RESERVED_WORDS_def reserved_lower lower_a
  by (simp only: member_eval)

lemma not_reserved_b: "\<not> isReservedWord ''b''"
  unfolding isReservedWord_def DYNAMODB_RESERVED_WORDS_def reserved_lower lower_b
  by (simp only: member_eval)

lemma not_reserved_interests: "\<not> isReservedWord ''interests''"
  unfolding isReservedWord_def DYNAMODB_RESERVED_WORDS_def reserved_lower lower_interests
  by (simp only: member_eval)

lemma getExpressionAttributeName_plain:
  "\<not> isReservedWord w \<Longrightarrow> CHR ''.'' \<notin> set w \<Longrightarrow> CHR ''-'' \<notin> set w \<Longrightarrow> CHR '' '' \<notin> set w \<Longrightarrow>
   getExpressionAttributeName h w = (w, h)"
  by (simp add: getExpressionAttributeName_def split_on_no_sep processPart_def)

lemma resolve_a: "getExpressionAttributeName h ''a'' = (''a'', h)"
  by (rule getExpressionAttributeName_plain [OF not_reserved_a]) simp_all

lemma resolve_b: "getExpressionAttributeName h ''b'' = (''b'', h)"
  by (rule getExpressionAttributeName_plain [OF not_reserved_b]) simp_all

lemma resolve_interests: "getExpressionAttributeName h ''interests'' = (''interests'', h)"
  by (rule getExpressionAttributeName_plain [OF not_reserved_interests]) simp_all

lemma show_nat_1: "show_nat (Suc 0) = ''1''"
  by (simp add: show_nat.simps digit_char_def)

lemma show_nat_2: "show_nat (Suc (Suc 0)) = ''2''"
  by (simp add: show_nat.simps digit_char_def)

lemma show_nat_3: "show_nat (Suc (Suc (Suc 0))) = ''3''"
  by (simp add: show_nat.simps digit_char_def)

text \<open>
  C2, as amended. The update expression the code sends is the one described above, for every
  list of updates and all options: the verb groups in the order their verbs first occur,
  joined by one space; each group its verb, a space, and its members' clauses in insertion
  order joined by a comma and a space; a member without a value compiled to the bare resolved
  field name, taking no counter value; any other member taking the next counter value
  \<open>N\<close> and compiled to \<^verbatim>\<open>field = :valN\<close> under SET (to the \<^verbatim>\<open>list_append\<close> clause
  with \<^verbatim>\<open>:emptyN\<close> and \<^verbatim>\<open>:itemsN\<close> when its value carries a list marker), to
  \<^verbatim>\<open>field :valN\<close> under ADD and DELETE, and to the bare field name under REMOVE.
\<close>

theorem C2_update_expression_refines_spec:
  "UpdateExpression (updateItem_command us options) = spec_update_expression us"
  by (rule updateItem_command_refines_spec)

theorem C2_update_expression_witness:
  "UpdateExpression (updateItem_command
     [\<lparr>fu_field = ''a'', fu_value = JStr ''x'', fu_operation = SET\<rparr>,
      \<lparr>fu_field = ''b'', fu_value = JNum 1, fu_operation = ADD\<rparr>,
      \<lparr>fu_field = ''interests'', fu_value = listAppend_marker (JStr ''gaming''), fu_operation = SET\<rparr>,
      \<lparr>fu_field = ''a'', fu_value = JUndefined, fu_operation = REMOVE\<rparr>,
      \<lparr>fu_field = ''b'', fu_value = JUndefined, fu_operation = SET\<rparr>] no_options) =
     ''SET a = :val1, interests = list_append(if_not_exists(interests, :empty2), :items2), b ADD b :val3 REMOVE a''"
proof -
  let ?us = "[\<lparr>fu_field = ''a'', fu_value = JStr ''x'', fu_operation = SET\<rparr>,
      \<lparr>fu_field = ''b'', fu_value = JNum 1, fu_operation = ADD\<rparr>,
      \<lparr>fu_field = ''interests'', fu_value = listAppend_marker (JStr ''gaming''), fu_operation = SET\<rparr>,
      \<lparr>fu_field = ''a'', fu_value = JUndefined, fu_operation = REMOVE\<rparr>,
      \<lparr>fu_field = ''b'', fu_value = JUndefined, fu_operation = SET\<rparr>]"
  have "spec_update_expression ?us =
     ''SET a = :val1, interests = list_append(if_not_exists(interests, :empty2), :items2), b ADD b :val3 REMOVE a''"
    by (simp add: spec_update_expression_def spec_member_def spec_member_clause_def
        resolve_a resolve_b resolve_interests spec_clause_def spec_append_clause_def
        listAppend_marker_def has_marker_def show_nat_1 show_nat_2 show_nat_3)
  with C2_update_expression_refines_spec [of ?us no_options] show ?thesis by simp
qed

text \<open>
  The claim as stated fails on a SET member without a value (the \<^verbatim>\<open>value\<close> of a
  \<^verbatim>\<open>FieldUpdate\<close> is optional): the guard \<^verbatim>\<open>update.value !== undefined\<close> sends it to
  the bare field name.
\<close>

theorem C2_set_without_value_counterexample:
  "UpdateExpression (updateItem_command
      [\<lparr>fu_field = ''a'', fu_value = JUndefined, fu_operation = SET\<rparr>] no_options) = ''SET a'' \<and>
   (\<forall>n. UpdateExpression (updateItem_command
      [\<lparr>fu_field = ''a'', fu_value = JUndefined, fu_operation = SET\<rparr>] no_options) \<noteq>
      ''SET a = :val'' @ show_nat n)"
  by (simp add: updateItem_command_def groupedUpdates_def compileUpdate_def resolve_a
      new_ExpressionAttributeHandler_def Let_def)


lemma state_after_append_cons:
  "state_after (steps @ (opn, u) # rest) = state_after ((steps @ [(opn, u)]) @ rest)"
  by simp



lemma values_bounded_mono: "values_bounded vals n \<Longrightarrow> n \<le> m \<Longrightarrow> values_bounded vals m"
  unfolding values_bounded_def by (meson le_trans)































section \<open>Properties of the scan builder\<close>

lemma getExpressionName_keeps:
  "getExpressionName t b f = (n, b1) \<Longrightarrow>
   fst (getExpressionName t b f) = n \<and>
   valueCounter b1 = valueCounter b \<and> filterExpressions b1 = filterExpressions b \<and>
   sb_expressionValues b1 = sb_expressionValues b"
  by (auto simp: getExpressionName_def Let_def split: if_splits)

lemma processFields_keeps:
  "processFields t b fs = (ns, b1) \<Longrightarrow>
   valueCounter b1 = valueCounter b \<and> filterExpressions b1 = filterExpressions b \<and>
   sb_expressionValues b1 = sb_expressionValues b"
proof (induction fs arbitrary: b ns)
  case Nil
  then show ?case by simp
next
  case (Cons f fs)
  obtain n b0 where g: "getExpressionName t b f = (n, b0)" by (cases "getExpressionName t b f")
  with Cons.prems obtain ms where r: "processFields t b0 fs = (ms, b1)"
    by (auto split: prod.splits)
  from Cons.IH [OF r] getExpressionName_keeps [OF g] show ?case by simp
qed

lemma addCondition_spec:
  "addCondition t b f opr v = Inr b' \<Longrightarrow>
   filterExpressions b' = filterExpressions b @
     [fst (getExpressionName t b f) @ '' '' @ opr @ '' '' @ spec_placeholder (valueCounter b)] \<and>
   sb_expressionValues b' =
     AList.update (spec_placeholder (valueCounter b)) v (sb_expressionValues b) \<and>
   valueCounter b' = valueCounter b + 1"
  by (auto simp: addCondition_def next_valueKey_def spec_placeholder_def
      split: sum.splits prod.splits dest!: getExpressionName_keeps)

lemma addFunctionCondition_spec:
  "addFunctionCondition fn t b f v = Inr b' \<Longrightarrow>
   filterExpressions b' = filterExpressions b @
     [fn @ ''('' @ fst (getExpressionName t b f) @ '', '' @ spec_placeholder (valueCounter b) @ '')''] \<and>
   sb_expressionValues b' =
     AList.update (spec_placeholder (valueCounter b)) v (sb_expressionValues b) \<and>
   valueCounter b' = valueCounter b + 1"
  by (auto simp: addFunctionCondition_def next_valueKey_def spec_placeholder_def
      split: sum.splits prod.splits dest!: getExpressionName_keeps)

lemma between_scan_spec:
  "between_scan t b f lo hi = Inr b' \<Longrightarrow>
   filterExpressions b' = filterExpressions b @
     [fst (getExpressionName t b f) @ '' BETWEEN '' @ spec_placeholder (valueCounter b) @
        '' AND '' @ spec_placeholder (valueCounter b + 1)] \<and>
   sb_expressionValues b' =
     AList.update (spec_placeholder (valueCounter b + 1)) hi
       (AList.update (spec_placeholder (valueCounter b)) lo (sb_expressionValues b)) \<and>
   valueCounter b' = valueCounter b + 2"
  by (auto simp: between_scan_def next_valueKey_def spec_placeholder_def
      split: sum.splits prod.splits dest!: getExpressionName_keeps)

lemma addAttributeCondition_spec:
  "addAttributeCondition fn t b f = Inr b' \<Longrightarrow>
   filterExpressions b' = filterExpressions b @ [fn @ ''('' @ fst (getExpressionName t b f) @ '')''] \<and>
   sb_expressionValues b' = sb_expressionValues b \<and>
   valueCounter b' = valueCounter b"
  by (auto simp: addAttributeCondition_def split: sum.splits prod.splits
      dest!: getExpressionName_keeps)

lemma filter_scan_spec:
  "filter_scan b e vs = Inr b' \<Longrightarrow>
   filterExpressions b' = filterExpressions b @ [''('' @ e @ '')''] \<and>
   sb_expressionValues b' =
     foldl (\<lambda>acc (k, v). AList.update k v acc) (sb_expressionValues b)
       (case vs of None \<Rightarrow> [] | Some xs \<Rightarrow> xs) \<and>
   valueCounter b' = valueCounter b"
  by (auto simp: filter_scan_def Let_def split: sum.splits option.splits)

lemma selectFields_scan_spec:
  "selectFields_scan t b fs = Inr b' \<Longrightarrow>
   filterExpressions b' = filterExpressions b \<and> sb_expressionValues b' = sb_expressionValues b \<and>
   valueCounter b' = valueCounter b"
  by (auto simp: selectFields_scan_def split: if_splits sum.splits prod.splits
      dest!: processFields_keeps)

lemma modifiers_spec:
  "withLimit_scan b l = Inr b' \<Longrightarrow>
     filterExpressions b' = filterExpressions b \<and> sb_expressionValues b' = sb_expressionValues b \<and>
     valueCounter b' = valueCounter b"
  "usingIndex_scan b n = Inr b' \<Longrightarrow>
     filterExpressions b' = filterExpressions b \<and> sb_expressionValues b' = sb_expressionValues b \<and>
     valueCounter b' = valueCounter b"
  "withConsistentRead b c = Inr b' \<Longrightarrow>
     filterExpressions b' = filterExpressions b \<and> sb_expressionValues b' = sb_expressionValues b \<and>
     valueCounter b' = valueCounter b"
  "withStartKey b k = Inr b' \<Longrightarrow>
     filterExpressions b' = filterExpressions b \<and> sb_expressionValues b' = sb_expressionValues b \<and>
     valueCounter b' = valueCounter b"
  "withParallelScan b ts sg = Inr b' \<Longrightarrow>
     filterExpressions b' = filterExpressions b \<and> sb_expressionValues b' = sb_expressionValues b \<and>
     valueCounter b' = valueCounter b"
  by (auto simp: withLimit_scan_def usingIndex_scan_def withConsistentRead_def withStartKey_def
      withParallelScan_def split: jsval.splits if_splits sum.splits)

lemma upt_one: "[n..<n + 1] = [n]"
  by simp

lemma upt_two: "[n..<n + 2] = [n, n + 1]"
  by (simp add: upt_rec)

lemma apply_call_spec:
  assumes "apply_call t b c = Inr b'"
    and "spec_step c (spec_name t b c) (valueCounter b) = (frs, bs, ks)"
  shows "filterExpressions b' = filterExpressions b @ frs \<and>
     sb_expressionValues b' = foldl (\<lambda>acc (k, v). AList.update k v acc) (sb_expressionValues b) bs \<and>
     ks = map spec_placeholder [valueCounter b..<valueCounter b'] \<and>
     valueCounter b' = valueCounter b + length ks"
proof (cases c)
  case (Equals f v)
  with assms addCondition_spec [of t b f "''=''" v b'] show ?thesis
    by (auto simp: spec_comparison_def spec_name_def upt_one Let_def)
next
  case (NotEquals f v)
  with assms addCondition_spec [of t b f "''<>''" v b'] show ?thesis
    by (auto simp: spec_comparison_def spec_name_def upt_one Let_def)
next
  case (LessThan f v)
  with assms addCondition_spec [of t b f "''<''" v b'] show ?thesis
    by (auto simp: spec_comparison_def spec_name_def upt_one Let_def)
next
  case (LessThanOrEqual f v)
  with assms addCondition_spec [of t b f "''<=''" v b'] show ?thesis
    by (auto simp: spec_comparison_def spec_name_def upt_one Let_def)
next
  case (GreaterThan f v)
  with assms addCondition_spec [of t b f "''>''" v b'] show ?thesis
    by (auto simp: spec_comparison_def spec_name_def upt_one Let_def)
next
  case (GreaterThanOrEqual f v)
  with assms addCondition_spec [of t b f "''>=''" v b'] show ?thesis
    by (auto simp: spec_comparison_def spec_name_def upt_one Let_def)
next
  case (BeginsWith f v)
  with assms addFunctionCondition_spec [of "''begins_with''" t b f v b'] show ?thesis
    by (auto simp: spec_function_def spec_name_def upt_one Let_def)
next
  case (Contains f v)
  with assms addFunctionCondition_spec [of "''contains''" t b f v b'] show ?thesis
    by (auto simp: spec_function_def spec_name_def upt_one Let_def)
next
  case (Between f lo hi)
  with assms between_scan_spec [of t b f lo hi b'] show ?thesis
    by (auto simp: spec_name_def upt_two Let_def)
next
  case (AttributeExists f)
  with assms addAttributeCondition_spec [of "''attribute_exists''" t b f b'] show ?thesis
    by (auto simp: spec_name_def)
next
  case (AttributeNotExists f)
  with assms addAttributeCondition_spec [of "''attribute_not_exists''" t b f b'] show ?thesis
    by (auto simp: spec_name_def)
next
  case (Filter e vs)
  with assms filter_scan_spec [of b e vs b'] show ?thesis by auto
next
  case (SelectFields fs)
  with assms selectFields_scan_spec [of t b fs b'] show ?thesis by auto
next
  case (WithLimit l)
  with assms modifiers_spec(1) [of b l b'] show ?thesis by auto
next
  case (UsingIndex n)
  with assms modifiers_spec(2) [of b n b'] show ?thesis by auto
next
  case (WithConsistentRead cr)
  with assms modifiers_spec(3) [of b cr b'] show ?thesis by auto
next
  case (WithStartKey k)
  with assms modifiers_spec(4) [of b k b'] show ?thesis by auto
next
  case (WithParallelScan ts sg)
  with assms modifiers_spec(5) [of b ts sg b'] show ?thesis by auto
qed

lemma apply_calls_spec:
  "apply_calls t b cs = Inr b' \<Longrightarrow> spec_scan t b (valueCounter b) cs = (frs, bs, ks) \<Longrightarrow>
   filterExpressions b' = filterExpressions b @ frs \<and>
   sb_expressionValues b' = foldl (\<lambda>acc (k, v). AList.update k v acc) (sb_expressionValues b) bs \<and>
   ks = map spec_placeholder [valueCounter b..<valueCounter b'] \<and>
   valueCounter b \<le> valueCounter b'"
proof (induction cs arbitrary: b frs bs ks)
  case Nil
  then show ?case by simp
next
  case (Cons c cs)
  from Cons.prems(1) obtain b1 where c: "apply_call t b c = Inr b1"
    and r: "apply_calls t b1 cs = Inr b'"
    by (auto split: sum.splits)
  obtain frs1 bs1 ks1 where s1: "spec_step c (spec_name t b c) (valueCounter b) = (frs1, bs1, ks1)"
    by (cases "spec_step c (spec_name t b c) (valueCounter b)") auto
  from apply_call_spec [OF c s1] have f1: "filterExpressions b1 = filterExpressions b @ frs1"
    and v1: "sb_expressionValues b1 =
      foldl (\<lambda>acc (k, v). AList.update k v acc) (sb_expressionValues b) bs1"
    and k1: "ks1 = map spec_placeholder [valueCounter b..<valueCounter b1]"
    and n1: "valueCounter b1 = valueCounter b + length ks1"
    by blast+
  obtain frs2 bs2 ks2 where s2: "spec_scan t b1 (valueCounter b1) cs = (frs2, bs2, ks2)"
    by (cases "spec_scan t b1 (valueCounter b1) cs") auto
  from Cons.prems(2) have "(case spec_scan t b1 (valueCounter b + length ks1) cs of
      (frs', bs', ks') \<Rightarrow> (frs1 @ frs', bs1 @ bs', ks1 @ ks')) = (frs, bs, ks)"
    by (simp add: c s1)
  with s2 have e: "frs = frs1 @ frs2" "bs = bs1 @ bs2" "ks = ks1 @ ks2"
    by (simp_all add: n1 [symmetric])
  from Cons.IH [OF r s2] have f2: "filterExpressions b' = filterExpressions b1 @ frs2"
    and v2: "sb_expressionValues b' =
      foldl (\<lambda>acc (k, v). AList.update k v acc) (sb_expressionValues b1) bs2"
    and k2: "ks2 = map spec_placeholder [valueCounter b1..<valueCounter b']"
    and n2: "valueCounter b1 \<le> valueCounter b'"
    by blast+
  from n1 have l1: "valueCounter b \<le> valueCounter b1" by simp
  from l1 n2 have "[valueCounter b..<valueCounter b'] =
      [valueCounter b..<valueCounter b1] @ [valueCounter b1..<valueCounter b']"
    by (metis le_Suc_ex upt_add_eq_append)
  then have "map spec_placeholder [valueCounter b..<valueCounter b'] = ks1 @ ks2"
    by (simp only: map_append k1 [symmetric] k2 [symmetric])
  moreover have "filterExpressions b' = filterExpressions b @ frs1 @ frs2"
    by (simp only: f2 f1 append_assoc)
  moreover have "sb_expressionValues b' =
      foldl (\<lambda>acc (k, v). AList.update k v acc) (sb_expressionValues b) (bs1 @ bs2)"
    by (simp only: v2 v1 foldl_append)
  moreover from l1 n2 have "valueCounter b \<le> valueCounter b'" by simp
  ultimately show ?case by (simp only: e simp_thms)
qed

lemma spec_placeholders_distinct: "distinct (map spec_placeholder [m..<n])"
  by (simp add: distinct_map inj_on_def spec_placeholder_def show_nat_eq_iff)

text \<open>
  C6. For every chain of calls that succeeds on a new scan builder, in either environment,
  the builder holds what the description above gives for the chain: its fragments are the
  chain's fragments in the order of the calls, its value map has been written with the
  chain's bindings in their order, and the placeholders generated, which are the ones standing
  in those fragments and bindings, are all different, as many as the builder's counter says.
  \<^verbatim>\<open>build()\<close> gives as filter these fragments joined with \<^verbatim>\<open> AND \<close> (no filter when
  there is none) and as values that value map (none when it is empty).
\<close>

theorem C6_scan_placeholders_unique_and_filter_joined:
  assumes "apply_calls t new_ScanBuilder cs = Inr b"
  shows "\<exists>frs bs ks.
     spec_scan t new_ScanBuilder 0 cs = (frs, bs, ks) \<and>
     filterExpressions b = frs \<and>
     sb_expressionValues b = foldl (\<lambda>acc (k, v). AList.update k v acc) [] bs \<and>
     distinct ks \<and> length ks = valueCounter b \<and>
     so_filter (build_scan b) = (if frs = [] then None else Some (join '' AND '' frs)) \<and>
     so_expressionValues (build_scan b) =
       (if sb_expressionValues b = [] then None else Some (sb_expressionValues b))"
proof -
  obtain frs bs ks where s: "spec_scan t new_ScanBuilder 0 cs = (frs, bs, ks)"
    by (cases "spec_scan t new_ScanBuilder 0 cs") auto
  have z: "valueCounter new_ScanBuilder = 0" "filterExpressions new_ScanBuilder = []"
    "sb_expressionValues new_ScanBuilder = []"
    by (simp_all add: new_ScanBuilder_def)
  from apply_calls_spec [OF assms s [folded z(1)]]
  have f: "filterExpressions b = frs"
    and v: "sb_expressionValues b = foldl (\<lambda>acc (k, v). AList.update k v acc) [] bs"
    and k: "ks = map spec_placeholder [0..<valueCounter b]"
    by (simp_all add: z)
  from k have d: "distinct ks" and l: "length ks = valueCounter b"
    by (simp_all add: spec_placeholders_distinct)
  have bf: "so_filter (build_scan b) = (if frs = [] then None else Some (join '' AND '' frs))"
    by (simp add: build_scan_def f)
  have bv: "so_expressionValues (build_scan b) =
       (if sb_expressionValues b = [] then None else Some (sb_expressionValues b))"
    by (simp add: build_scan_def)
  from s f v d l bf bv show ?thesis by blast
qed

lemma scan_chain_example:
  "apply_calls True new_ScanBuilder
     [Equals ''status'' (JStr ''active''), Between ''age'' (JNum 20) (JNum 30),
      Filter ''size(tags) > :size'' (Some [('':size'', JNum 2)]), AttributeExists ''email'',
      WithLimit (JNum 10), LessThan ''age'' (JNum 65)] =
   Inr (new_ScanBuilder\<lparr>
     filterExpressions := [''status = :value0'', ''age BETWEEN :value1 AND :value2'',
       ''(size(tags) > :size)'', ''attribute_exists(email)'', ''age < :value3''],
     sb_expressionValues := [('':value0'', JStr ''active''), ('':value1'', JNum 20),
       ('':value2'', JNum 30), ('':size'', JNum 2), ('':value3'', JNum 65)],
     limitValue := Some 10,
     valueCounter := 4\<rparr>)"
  by (simp add: addCondition_def between_scan_def filter_scan_def addAttributeCondition_def
      withLimit_scan_def validateString_def validateFieldName_eh_def is_blank_def is_space_def
      getExpressionName_def next_valueKey_def new_ScanBuilder_def show_nat.simps digit_char_def
      Let_def)

lemma scan_chain_example_spec:
  "spec_scan True new_ScanBuilder 0
     [Equals ''status'' (JStr ''active''), Between ''age'' (JNum 20) (JNum 30),
      Filter ''size(tags) > :size'' (Some [('':size'', JNum 2)]), AttributeExists ''email'',
      WithLimit (JNum 10), LessThan ''age'' (JNum 65)] =
   ([''status = :value0'', ''age BETWEEN :value1 AND :value2'',
       ''(size(tags) > :size)'', ''attribute_exists(email)'', ''age < :value3''],
    [('':value0'', JStr ''active''), ('':value1'', JNum 20),
       ('':value2'', JNum 30), ('':size'', JNum 2), ('':value3'', JNum 65)],
    ['':value0'', '':value1'', '':value2'', '':value3''])"
  by (simp add: spec_comparison_def spec_name_def spec_placeholder_def
      addCondition_def between_scan_def filter_scan_def addAttributeCondition_def
      withLimit_scan_def validateString_def validateFieldName_eh_def is_blank_def is_space_def
      getExpressionName_def next_valueKey_def new_ScanBuilder_def show_nat.simps digit_char_def
      Let_def)

theorem C6_scan_placeholders_witness:
  "apply_calls True new_ScanBuilder
     [Equals ''status'' (JStr ''active''), Between ''age'' (JNum 20) (JNum 30),
      Filter ''size(tags) > :size'' (Some [('':size'', JNum 2)]), AttributeExists ''email'',
      WithLimit (JNum 10), LessThan ''age'' (JNum 65)] =
   Inr (new_ScanBuilder\<lparr>
     filterExpressions := [''status = :value0'', ''age BETWEEN :value1 AND :value2'',
       ''(size(tags) > :size)'', ''attribute_exists(email)'', ''age < :value3''],
     sb_expressionValues := [('':value0'', JStr ''active''), ('':value1'', JNum 20),
       ('':value2'', JNum 30), ('':size'', JNum 2), ('':value3'', JNum 65)],
     limitValue := Some 10,
     valueCounter := 4\<rparr>) \<and>
   distinct ['':value0'', '':value1'', '':value2'', '':value3''] \<and>
   so_filter (build_scan (new_ScanBuilder\<lparr>
     filterExpressions := [''status = :value0'', ''age BETWEEN :value1 AND :value2'',
       ''(size(tags) > :size)'', ''attribute_exists(email)'', ''age < :value3''],
     sb_expressionValues := [('':value0'', JStr ''active''), ('':value1'', JNum 20),
       ('':value2'', JNum 30), ('':size'', JNum 2), ('':value3'', JNum 65)],
     limitValue := Some 10,
     valueCounter := 4\<rparr>)) =
     Some ''status = :value0 AND age BETWEEN :value1 AND :value2 AND (size(tags) > :size) AND attribute_exists(email) AND age < :value3''"
proof -
  let ?B = "new_ScanBuilder\<lparr>
     filterExpressions := [''status = :value0'', ''age BETWEEN :value1 AND :value2'',
       ''(size(tags) > :size)'', ''attribute_exists(email)'', ''age < :value3''],
     sb_expressionValues := [('':value0'', JStr ''active''), ('':value1'', JNum 20),
       ('':value2'', JNum 30), ('':size'', JNum 2), ('':value3'', JNum 65)],
     limitValue := Some 10,
     valueCounter := 4\<rparr>"
  from C6_scan_placeholders_unique_and_filter_joined [OF scan_chain_example]
  obtain frs bs ks where
    s: "spec_scan True new_ScanBuilder 0
     [Equals ''status'' (JStr ''active''), Between ''age'' (JNum 20) (JNum 30),
      Filter ''size(tags) > :size'' (Some [('':size'', JNum 2)]), AttributeExists ''email'',
      WithLimit (JNum 10), LessThan ''age'' (JNum 65)] = (frs, bs, ks)"
    and d: "distinct ks"
    and f: "so_filter (build_scan ?B) = (if frs = [] then None else Some (join '' AND '' frs))"
    by blast
  from s [unfolded scan_chain_example_spec]
  have frs: "frs = [''status = :value0'', ''age BETWEEN :value1 AND :value2'',
       ''(size(tags) > :size)'', ''attribute_exists(email)'', ''age < :value3'']"
    and ks: "ks = ['':value0'', '':value1'', '':value2'', '':value3'']"
    by simp_all
  from d have a: "distinct ['':value0'', '':value1'', '':value2'', '':value3'']"
    unfolding ks .
  from f have b: "so_filter (build_scan ?B) =
     Some ''status = :value0 AND age BETWEEN :value1 AND :value2 AND (size(tags) > :size) AND attribute_exists(email) AND age < :value3''"
    unfolding frs by simp
  from scan_chain_example a b show ?thesis by (intro conjI)
qed

lemma lower_data: "toLowerCase ''data'' = ''data''"
  by (simp add: toLowerCase_def toLowerCase_char_def)

lemma reserved_data: "isReserved ''data''"
  unfolding isReserved_def DYNAMODB_RESERVED_WORDS_def reserved_lower lower_data
  by (simp only: member_eval)

text \<open>
  C7. The code at \<^verbatim>\<open>new ScanBuilder().equals('data', 1).equals('data', 2).build()\<close>
  outside the test environment: the two conditions on the reserved word \<^verbatim>\<open>data\<close> get
  the distinct value placeholders \<^verbatim>\<open>:value0\<close> and \<^verbatim>\<open>:value1\<close>, and also two name
  placeholders, \<^verbatim>\<open>#n0\<close> and \<^verbatim>\<open>#n1\<close>, both entered in the expression names for the one
  field.
\<close>

theorem C7_same_field_gets_two_name_placeholders:
  "map_sum id (\<lambda>b. (so_filter (build_scan b), so_expressionNames (build_scan b)))
     (apply_calls False new_ScanBuilder [Equals ''data'' (JNum 1), Equals ''data'' (JNum 2)]) =
   Inr (Some ''#n0 = :value0 AND #n1 = :value1'',
        Some [(''#n0'', ''data''), (''#n1'', ''data'')])"
  by (simp add: addCondition_def validateFieldName_eh_def is_blank_def is_space_def
      all_word_chars_def is_word_char_def is_lower_def
      getExpressionName_def reserved_data next_valueKey_def new_ScanBuilder_def build_scan_def
      show_nat.simps digit_char_def Let_def)


section \<open>Properties of the stream processor\<close>

lemma records_processed_append:
  "records_processed (xs @ ys) = records_processed xs + records_processed ys"
  by (induction xs rule: records_processed.induct) simp_all

lemma iterator_requests_append:
  "iterator_requests (xs @ ys) = iterator_requests xs @ iterator_requests ys"
  by (induction xs rule: iterator_requests.induct) simp_all

lemma append_eq_split:
  "a @ b = pre @ x # post \<Longrightarrow>
   (\<exists>ipost. a = pre @ x # ipost \<and> post = ipost @ b) \<or>
   (\<exists>pre2. pre = a @ pre2 \<and> b = pre2 @ x # post)"
proof (induction a arbitrary: pre)
  case Nil
  then show ?case by simp
next
  case (Cons y a)
  show ?case
  proof (cases pre)
    case Nil
    with Cons.prems show ?thesis by simp
  next
    case (Cons p pre')
    with Cons.prems have "a @ b = pre' @ x # post" and "y = p" by simp_all
    with Cons.IH [of pre'] Cons show ?thesis by auto
  qed
qed

lemma iteration_cases [consumes 1, case_names throws fetch_fails_stop fetch_fails_retry
    no_records handled handler_stop handler_continue]:
  assumes "iteration t w c cur st = (thr, evs, st1, nxt)"
  obtains
    e where "thr = Some e" "evs = [GetRecordsCall cur (Throws e)]"
      "processedRecords st1 = processedRecords st"
  | e where "stopOnError c" "thr = Some e" "evs = [GetRecordsCall cur (Failure e)]"
      "processedRecords st1 = processedRecords st"
  | e where "\<not> stopOnError c" "thr = None"
      "evs = [GetRecordsCall cur (Failure e), ConsoleError ''Error getting stream records:'',
              Sleep (pollInterval c)]"
      "nxt = Some cur" "processedRecords st1 = processedRecords st"
  | nx where "thr = None"
      "evs = [GetRecordsCall cur (Success ([], nx)), Sleep (pollInterval c)]"
      "nxt = nx" "processedRecords st1 = processedRecords st"
  | rs nx rs' where "rs \<noteq> []" "handler_outcome w (handlerCalls st) rs = (None, rs')"
      "thr = None"
      "evs = [GetRecordsCall cur (Success (rs, nx)), HandlerCall rs None rs'] @
             (if rs' = [] then [Sleep (pollInterval c)] else [])"
      "nxt = nx" "processedRecords st1 = processedRecords st + length rs'"
  | rs nx rs' e where "rs \<noteq> []" "handler_outcome w (handlerCalls st) rs = (Some e, rs')"
      "stopOnError c" "thr = Some e"
      "evs = [GetRecordsCall cur (Success (rs, nx)), HandlerCall rs (Some e) rs']"
      "processedRecords st1 = processedRecords st"
  | rs nx rs' e where "rs \<noteq> []" "handler_outcome w (handlerCalls st) rs = (Some e, rs')"
      "\<not> stopOnError c" "thr = None"
      "evs = [GetRecordsCall cur (Success (rs, nx)), HandlerCall rs (Some e) rs',
              ConsoleError ''Error in stream handler:''] @
             (if rs' = [] then [Sleep (pollInterval c)] else [])"
      "nxt = nx" "processedRecords st1 = processedRecords st"
proof (cases "getStreamRecords t w (getRecordsCalls st) cur (batchSize c)")
  case (Throws e)
  with assms have "thr = Some e" "evs = [GetRecordsCall cur (Throws e)]"
    "processedRecords st1 = processedRecords st"
    by (auto simp: iteration_def Let_def)
  then show ?thesis by (rule that(1))
next
  case (Failure e)
  show ?thesis
  proof (cases "stopOnError c")
    case True
    with assms Failure have "thr = Some e" "evs = [GetRecordsCall cur (Failure e)]"
      "processedRecords st1 = processedRecords st"
      by (auto simp: iteration_def Let_def)
    with True show ?thesis by (intro that(2))
  next
    case False
    with assms Failure have "thr = None"
      "evs = [GetRecordsCall cur (Failure e), ConsoleError ''Error getting stream records:'',
              Sleep (pollInterval c)]"
      "nxt = Some cur" "processedRecords st1 = processedRecords st"
      by (auto simp: iteration_def Let_def)
    with False show ?thesis by (intro that(3))
  qed
next
  case (Success p)
  obtain rs nx where p: "p = (rs, nx)" by (cases p)
  note g = Success [unfolded p]
  show ?thesis
  proof (cases "rs = []")
    case True
    with assms g have "thr = None"
      "evs = [GetRecordsCall cur (Success ([], nx)), Sleep (pollInterval c)]"
      "nxt = nx" "processedRecords st1 = processedRecords st"
      by (auto simp: iteration_def Let_def)
    then show ?thesis by (rule that(4))
  next
    case rne: False
    obtain r rs' where h: "handler_outcome w (handlerCalls st) rs = (r, rs')"
      by (cases "handler_outcome w (handlerCalls st) rs")
    show ?thesis
    proof (cases r)
      case None
      with assms g rne h have "thr = None"
        "evs = [GetRecordsCall cur (Success (rs, nx)), HandlerCall rs None rs'] @
             (if rs' = [] then [Sleep (pollInterval c)] else [])"
        "nxt = nx" "processedRecords st1 = processedRecords st + length rs'"
        by (auto simp: iteration_def Let_def)
      with rne h [unfolded None] show ?thesis by (intro that(5))
    next
      case (Some e)
      show ?thesis
      proof (cases "stopOnError c")
        case True
        with assms g rne h Some have "thr = Some e"
          "evs = [GetRecordsCall cur (Success (rs, nx)), HandlerCall rs (Some e) rs']"
          "processedRecords st1 = processedRecords st"
          by (auto simp: iteration_def Let_def)
        with rne h [unfolded Some] True show ?thesis by (intro that(6))
      next
        case False
        with assms g rne h Some have "thr = None"
          "evs = [GetRecordsCall cur (Success (rs, nx)), HandlerCall rs (Some e) rs',
              ConsoleError ''Error in stream handler:''] @
             (if rs' = [] then [Sleep (pollInterval c)] else [])"
          "nxt = nx" "processedRecords st1 = processedRecords st"
          by (auto simp: iteration_def Let_def)
        with rne h [unfolded Some] False show ?thesis by (intro that(7))
      qed
    qed
  qed
qed

lemma iteration_processed:
  "iteration t w c cur st = (thr, evs, st1, nxt) \<Longrightarrow>
   processedRecords st1 = processedRecords st + records_processed evs"
  by (cases rule: iteration_cases) auto

lemma iteration_head:
  "iteration t w c cur st = (thr, evs, st1, nxt) \<Longrightarrow>
   \<exists>r tl. evs = GetRecordsCall cur r # tl \<and> \<not> list_ex is_fetch tl \<and>
     \<not> list_ex is_iterator_request evs \<and> iterator_requests evs = []"
  by (cases rule: iteration_cases) auto

lemma while_loop_Suc_cases [consumes 1, case_names exit stop continue]:
  assumes "while_loop (Suc fuel) t w c it st = (s, evs, st')"
  obtains
    "it = None \<or> it = Some [] \<or> \<not> below_max c (processedRecords st)"
      "s = Finished" "evs = []" "st' = st"
  | cur e nxt where "it = Some cur" "cur \<noteq> []" "below_max c (processedRecords st)"
      "iteration t w c cur st = (Some e, evs, st', nxt)" "s = Rejected e"
  | cur ievs st1 nxt rest where "it = Some cur" "cur \<noteq> []" "below_max c (processedRecords st)"
      "iteration t w c cur st = (None, ievs, st1, nxt)"
      "while_loop fuel t w c nxt st1 = (s, rest, st')" "evs = ievs @ rest"
proof (cases "it = None \<or> it = Some [] \<or> \<not> below_max c (processedRecords st)")
  case True
  with assms have "s = Finished" "evs = []" "st' = st"
    by (auto split: option.splits)
  with True show ?thesis by (intro that(1))
next
  case False
  then obtain cur where it: "it = Some cur" and ne: "cur \<noteq> []"
    and bm: "below_max c (processedRecords st)"
    by (cases it) auto
  obtain thr ievs st1 nxt where i: "iteration t w c cur st = (thr, ievs, st1, nxt)"
    by (cases "iteration t w c cur st") auto
  show ?thesis
  proof (cases thr)
    case (Some e)
    with assms it ne bm i have "s = Rejected e" "evs = ievs" "st' = st1" by simp_all
    with it ne bm i Some show ?thesis by (intro that(2)) simp_all
  next
    case None
    obtain s0 rest st2 where r: "while_loop fuel t w c nxt st1 = (s0, rest, st2)"
      by (cases "while_loop fuel t w c nxt st1") auto
    with assms it ne bm i None have "s = s0" "evs = ievs @ rest" "st' = st2" by simp_all
    with it ne bm i None r show ?thesis by (intro that(3)) simp_all
  qed
qed

lemma while_loop_exit:
  "while_loop fuel t w c it st = (s, evs, st') \<Longrightarrow>
   it = None \<or> it = Some [] \<or> \<not> below_max c (processedRecords st) \<Longrightarrow>
   evs = [] \<and> st' = st \<and> (s = Finished \<or> s = OutOfFuel)"
  by (cases fuel) (auto split: option.splits)


lemma while_loop_head:
  "while_loop fuel t w c it st = (s, evs, st') \<Longrightarrow>
   evs = [] \<or> (\<exists>cur r tl. evs = GetRecordsCall cur r # tl \<and> it = Some cur)"
proof (cases fuel)
  case 0
  assume "while_loop fuel t w c it st = (s, evs, st')"
  with 0 show ?thesis by simp
next
  case (Suc fuel')
  assume "while_loop fuel t w c it st = (s, evs, st')"
  from this [unfolded Suc] show ?thesis
  proof (cases rule: while_loop_Suc_cases)
    case exit
    then show ?thesis by simp
  next
    case (stop cur0 e nxt)
    with iteration_head [OF stop(4)] show ?thesis by auto
  next
    case (continue cur0 ievs st1 nxt rest)
    with iteration_head [OF continue(4)] show ?thesis by auto
  qed
qed

lemma while_loop_processed:
  "while_loop fuel t w c it st = (s, evs, st') \<Longrightarrow>
   processedRecords st' = processedRecords st + records_processed evs"
proof (induction fuel arbitrary: it st s evs st')
  case 0
  then show ?case by simp
next
  case (Suc fuel)
  from Suc.prems show ?case
  proof (cases rule: while_loop_Suc_cases)
    case exit
    then show ?thesis by simp
  next
    case (stop cur e nxt)
    from iteration_processed [OF stop(4)] show ?thesis .
  next
    case (continue cur ievs st1 nxt rest)
    from iteration_processed [OF continue(4)] Suc.IH [OF continue(5)] continue(6)
    show ?thesis by (simp add: records_processed_append)
  qed
qed

lemma while_loop_no_iterator_requests:
  "while_loop fuel t w c it st = (s, evs, st') \<Longrightarrow>
   iterator_requests evs = [] \<and> \<not> list_ex is_iterator_request evs"
proof (induction fuel arbitrary: it st s evs st')
  case 0
  then show ?case by simp
next
  case (Suc fuel)
  from Suc.prems show ?case
  proof (cases rule: while_loop_Suc_cases)
    case exit
    then show ?thesis by simp
  next
    case (stop cur e nxt)
    from iteration_head [OF stop(4)] show ?thesis by auto
  next
    case (continue cur ievs st1 nxt rest)
    from iteration_head [OF continue(4)] Suc.IH [OF continue(5)] continue(6)
    show ?thesis by (auto simp: iterator_requests_append)
  qed
qed

lemma while_loop_event:
  "while_loop fuel t w c it st = (s, evs, st') \<Longrightarrow> evs = pre @ x # post \<Longrightarrow>
   \<exists>cur st0 thr ievs st1 nxt pre0 ipre ipost rest fuel'.
      pre = pre0 @ ipre \<and> ievs = ipre @ x # ipost \<and> post = ipost @ rest \<and>
      iteration t w c cur st0 = (thr, ievs, st1, nxt) \<and> cur \<noteq> [] \<and>
      below_max c (processedRecords st0) \<and>
      processedRecords st0 = processedRecords st + records_processed pre0 \<and>
      (case thr of Some e \<Rightarrow> s = Rejected e \<and> rest = []
                 | None \<Rightarrow> while_loop fuel' t w c nxt st1 = (s, rest, st'))"
proof (induction fuel arbitrary: it st evs pre)
  case 0
  then show ?case by simp
next
  case (Suc fuel)
  from Suc.prems(1) show ?case
  proof (cases rule: while_loop_Suc_cases)
    case exit
    with Suc.prems(2) show ?thesis by simp
  next
    case (stop cur e nxt)
    have "pre = [] @ pre" "post = post @ []"
      "processedRecords st = processedRecords st + records_processed []"
      "(case Some e of Some e \<Rightarrow> s = Rejected e \<and> ([] :: event list) = []
                 | None \<Rightarrow> while_loop fuel t w c nxt st' = (s, [], st'))"
      using stop(5) by simp_all
    with stop(2,3) stop(4) [unfolded Suc.prems(2)] show ?thesis by blast
  next
    case (continue cur ievs st1 nxt rest)
    from continue(6) Suc.prems(2) have "ievs @ rest = pre @ x # post" by simp
    from append_eq_split [OF this] show ?thesis
    proof (elim disjE exE conjE)
      fix ipost
      assume a: "ievs = pre @ x # ipost" "post = ipost @ rest"
      have "pre = [] @ pre"
        "processedRecords st = processedRecords st + records_processed []"
        "(case None of Some e \<Rightarrow> s = Rejected e \<and> rest = []
                 | None \<Rightarrow> while_loop fuel t w c nxt st1 = (s, rest, st'))"
        using continue(5) by simp_all
      with continue(2,3) continue(4) [unfolded a(1)] a(2) show ?thesis by blast
    next
      fix pre2
      assume a: "pre = ievs @ pre2" "rest = pre2 @ x # post"
      from Suc.IH [OF continue(5) a(2)] obtain cur0 st0 thr ievs0 st2 nxt0 pre0 ipre ipost rest0 fuel'
        where b: "pre2 = pre0 @ ipre" "ievs0 = ipre @ x # ipost" "post = ipost @ rest0"
          "iteration t w c cur0 st0 = (thr, ievs0, st2, nxt0)" "cur0 \<noteq> []"
          "below_max c (processedRecords st0)"
          "processedRecords st0 = processedRecords st1 + records_processed pre0"
          "(case thr of Some e \<Rightarrow> s = Rejected e \<and> rest0 = []
                 | None \<Rightarrow> while_loop fuel' t w c nxt0 st2 = (s, rest0, st'))"
        by blast
      from a(1) b(1) have p: "pre = (ievs @ pre0) @ ipre" by simp
      from b(7) iteration_processed [OF continue(4)]
      have q: "processedRecords st0 = processedRecords st + records_processed (ievs @ pre0)"
        by (simp add: records_processed_append)
      from p b(2,3,4,5,6) q b(8) show ?thesis by blast
    qed
  qed
qed

lemma shards_loop_Cons:
  assumes "shards_loop fuel t w c (shard # shards) st = (s, evs, st')"
  shows "(\<exists>e. s = Rejected e \<and> evs = [GetShardIteratorCall shard] \<and> st' = st) \<or>
         (\<exists>it s0 evs0 st0.
            getShardIterator t w shard = Success it \<and>
            while_loop fuel t w c (Some it) st = (s0, evs0, st0) \<and>
            ((s0 \<noteq> Finished \<and> s = s0 \<and> evs = GetShardIteratorCall shard # evs0 \<and> st' = st0) \<or>
             (s0 = Finished \<and>
              (\<exists>evs1. shards_loop fuel t w c shards st0 = (s, evs1, st') \<and>
                 evs = GetShardIteratorCall shard # evs0 @ evs1))))"
proof (cases "getShardIterator t w shard")
  case (Throws e)
  with assms show ?thesis by auto
next
  case (Failure e)
  with assms show ?thesis by auto
next
  case (Success it)
  obtain s0 evs0 st0 where wl: "while_loop fuel t w c (Some it) st = (s0, evs0, st0)"
    by (cases "while_loop fuel t w c (Some it) st") auto
  show ?thesis
  proof (cases "s0 = Finished")
    case True
    obtain s1 evs1 st1 where sl: "shards_loop fuel t w c shards st0 = (s1, evs1, st1)"
      by (cases "shards_loop fuel t w c shards st0") auto
    with assms Success wl True have "s = s1" "evs = GetShardIteratorCall shard # evs0 @ evs1" "st' = st1"
      by simp_all
    with Success wl True sl show ?thesis by simp
  next
    case False
    with assms Success wl have "s = s0" "evs = GetShardIteratorCall shard # evs0" "st' = st0"
      by (cases s0; simp)+
    with Success wl False show ?thesis by simp
  qed
qed

lemma shards_loop_head:
  "shards_loop fuel t w c shards st = (s, evs, st') \<Longrightarrow>
   evs = [] \<or> (\<exists>sh tl. evs = GetShardIteratorCall sh # tl)"
proof (cases shards)
  case Nil
  assume "shards_loop fuel t w c shards st = (s, evs, st')"
  with Nil show ?thesis by simp
next
  case (Cons shard rest)
  assume "shards_loop fuel t w c shards st = (s, evs, st')"
  with Cons shards_loop_Cons [of fuel t w c shard rest st s evs st'] show ?thesis by auto
qed

lemma shards_loop_processed:
  "shards_loop fuel t w c shards st = (s, evs, st') \<Longrightarrow>
   processedRecords st' = processedRecords st + records_processed evs"
proof (induction shards arbitrary: st s evs st')
  case Nil
  then show ?case by simp
next
  case (Cons shard shards)
  from shards_loop_Cons [OF Cons.prems] show ?case
  proof (elim disjE exE conjE)
    fix e
    assume "evs = [GetShardIteratorCall shard]" "st' = st"
    then show ?thesis by simp
  next
    fix it s0 evs0 st0
    assume wl: "while_loop fuel t w c (Some it) st = (s0, evs0, st0)"
      and "evs = GetShardIteratorCall shard # evs0" "st' = st0"
    with while_loop_processed [OF wl] show ?thesis by simp
  next
    fix it s0 evs0 st0 evs1
    assume wl: "while_loop fuel t w c (Some it) st = (s0, evs0, st0)"
      and sl: "shards_loop fuel t w c shards st0 = (s, evs1, st')"
      and e: "evs = GetShardIteratorCall shard # evs0 @ evs1"
    from while_loop_processed [OF wl] Cons.IH [OF sl] e
    show ?thesis by (simp add: records_processed_append)
  qed
qed

lemma shards_loop_iterator_requests:
  "shards_loop fuel t w c shards st = (s, evs, st') \<Longrightarrow>
   \<exists>rest. shards = iterator_requests evs @ rest"
proof (induction shards arbitrary: st s evs st')
  case Nil
  then show ?case by simp
next
  case (Cons shard shards)
  from shards_loop_Cons [OF Cons.prems] show ?case
  proof (elim disjE exE conjE)
    fix e
    assume "evs = [GetShardIteratorCall shard]"
    then show ?thesis by simp
  next
    fix it s0 evs0 st0
    assume wl: "while_loop fuel t w c (Some it) st = (s0, evs0, st0)"
      and "evs = GetShardIteratorCall shard # evs0"
    with while_loop_no_iterator_requests [OF wl] show ?thesis by simp
  next
    fix it s0 evs0 st0 evs1
    assume wl: "while_loop fuel t w c (Some it) st = (s0, evs0, st0)"
      and sl: "shards_loop fuel t w c shards st0 = (s, evs1, st')"
      and e: "evs = GetShardIteratorCall shard # evs0 @ evs1"
    from while_loop_no_iterator_requests [OF wl] Cons.IH [OF sl] e
    show ?thesis by (auto simp: iterator_requests_append)
  qed
qed

lemma shards_loop_event:
  "shards_loop fuel t w c shards st = (s, evs, st') \<Longrightarrow> evs = pre @ x # post \<Longrightarrow>
   is_iterator_request x \<or>
   (\<exists>cur st0 thr ievs st1 nxt pre0 ipre ipost rest later fuel' s0 st2.
      pre = pre0 @ ipre \<and> ievs = ipre @ x # ipost \<and> post = ipost @ rest @ later \<and>
      iteration t w c cur st0 = (thr, ievs, st1, nxt) \<and> cur \<noteq> [] \<and>
      below_max c (processedRecords st0) \<and>
      processedRecords st0 = processedRecords st + records_processed pre0 \<and>
      (later = [] \<or> (\<exists>sh tl. later = GetShardIteratorCall sh # tl)) \<and>
      (case thr of Some e \<Rightarrow> s = Rejected e \<and> rest = [] \<and> later = []
                 | None \<Rightarrow> while_loop fuel' t w c nxt st1 = (s0, rest, st2) \<and>
                     (s0 \<noteq> Finished \<longrightarrow> s = s0 \<and> later = [])))"
proof (induction shards arbitrary: st evs pre)
  case Nil
  then show ?case by simp
next
  case (Cons shard shards)
  from shards_loop_Cons [OF Cons.prems(1)] show ?case
  proof (elim disjE exE conjE)
    fix e
    assume "evs = [GetShardIteratorCall shard]"
    with Cons.prems(2) have "x = GetShardIteratorCall shard"
      by (auto simp: Cons_eq_append_conv)
    then show ?thesis by simp
  next
    fix it s0 evs0 st0
    assume wl: "while_loop fuel t w c (Some it) st = (s0, evs0, st0)"
      and nf: "s0 \<noteq> Finished" and s: "s = s0"
      and e: "evs = GetShardIteratorCall shard # evs0"
    show ?thesis
    proof (cases pre)
      case Nil
      with e Cons.prems(2) have "x = GetShardIteratorCall shard" by simp
      then show ?thesis by simp
    next
      case (Cons p pre1)
      with e Cons.prems(2) have p: "p = GetShardIteratorCall shard"
        and e0: "evs0 = pre1 @ x # post"
        by simp_all
      from while_loop_event [OF wl e0] obtain cur st1 thr ievs st2 nxt pre0 ipre ipost rest fuel'
        where b: "pre1 = pre0 @ ipre" "ievs = ipre @ x # ipost" "post = ipost @ rest"
          "iteration t w c cur st1 = (thr, ievs, st2, nxt)" "cur \<noteq> []"
          "below_max c (processedRecords st1)"
          "processedRecords st1 = processedRecords st + records_processed pre0"
          "(case thr of Some e \<Rightarrow> s0 = Rejected e \<and> rest = []
                 | None \<Rightarrow> while_loop fuel' t w c nxt st2 = (s0, rest, st0))"
        by blast
      have p1: "pre = (p # pre0) @ ipre" using Cons b(1) by simp
      have p2: "post = ipost @ rest @ []" using b(3) by simp
      have p3: "processedRecords st1 = processedRecords st + records_processed (p # pre0)"
        using b(7) p by simp
      have p4: "([] :: event list) = [] \<or> (\<exists>sh tl. ([] :: event list) = GetShardIteratorCall sh # tl)"
        by simp
      have p5: "(case thr of Some e \<Rightarrow> s = Rejected e \<and> rest = [] \<and> ([] :: event list) = []
                 | None \<Rightarrow> while_loop fuel' t w c nxt st2 = (s0, rest, st0) \<and>
                     (s0 \<noteq> Finished \<longrightarrow> s = s0 \<and> ([] :: event list) = []))"
        using b(8) s by (cases thr) simp_all
      from p1 b(2) p2 b(4,5,6) p3 p4 p5 show ?thesis by blast
    qed
  next
    fix it s0 evs0 st0 evs1
    assume wl: "while_loop fuel t w c (Some it) st = (s0, evs0, st0)"
      and fin: "s0 = Finished"
      and sl: "shards_loop fuel t w c shards st0 = (s, evs1, st')"
      and e: "evs = GetShardIteratorCall shard # evs0 @ evs1"
    show ?thesis
    proof (cases pre)
      case Nil
      with e Cons.prems(2) have "x = GetShardIteratorCall shard" by simp
      then show ?thesis by simp
    next
      case (Cons p pre1)
      with e Cons.prems(2) have p: "p = GetShardIteratorCall shard"
        and e01: "evs0 @ evs1 = pre1 @ x # post"
        by simp_all
      from append_eq_split [OF e01] show ?thesis
      proof (elim disjE exE conjE)
        fix ipost0
        assume a: "evs0 = pre1 @ x # ipost0" "post = ipost0 @ evs1"
        from while_loop_event [OF wl a(1)] obtain cur st1 thr ievs st2 nxt pre0 ipre ipost rest fuel'
          where b: "pre1 = pre0 @ ipre" "ievs = ipre @ x # ipost" "ipost0 = ipost @ rest"
            "iteration t w c cur st1 = (thr, ievs, st2, nxt)" "cur \<noteq> []"
            "below_max c (processedRecords st1)"
            "processedRecords st1 = processedRecords st + records_processed pre0"
            "(case thr of Some e \<Rightarrow> s0 = Rejected e \<and> rest = []
                   | None \<Rightarrow> while_loop fuel' t w c nxt st2 = (s0, rest, st0))"
          by blast
        from b(8) fin have th: "thr = None"
          and wl2: "while_loop fuel' t w c nxt st2 = (s0, rest, st0)"
          by (cases thr; simp)+
        have p1: "pre = (p # pre0) @ ipre" using Cons b(1) by simp
        have p2: "post = ipost @ rest @ evs1" using a(2) b(3) by simp
        have p3: "processedRecords st1 = processedRecords st + records_processed (p # pre0)"
          using b(7) p by simp
        have p4: "evs1 = [] \<or> (\<exists>sh tl. evs1 = GetShardIteratorCall sh # tl)"
          by (rule shards_loop_head [OF sl])
        have p5: "(case thr of Some e \<Rightarrow> s = Rejected e \<and> rest = [] \<and> evs1 = []
                   | None \<Rightarrow> while_loop fuel' t w c nxt st2 = (s0, rest, st0) \<and>
                       (s0 \<noteq> Finished \<longrightarrow> s = s0 \<and> evs1 = []))"
          using th wl2 fin by simp
        from p1 b(2) p2 b(4,5,6) p3 p4 p5 show ?thesis by blast
      next
        fix pre2
        assume a: "pre1 = evs0 @ pre2" "evs1 = pre2 @ x # post"
        from Cons.IH [OF sl a(2)] show ?thesis
        proof
          assume "is_iterator_request x"
          then show ?thesis by simp
        next
          assume "\<exists>cur st0a thr ievs st1 nxt pre0 ipre ipost rest later fuel' s0 st2.
            pre2 = pre0 @ ipre \<and> ievs = ipre @ x # ipost \<and> post = ipost @ rest @ later \<and>
            iteration t w c cur st0a = (thr, ievs, st1, nxt) \<and> cur \<noteq> [] \<and>
            below_max c (processedRecords st0a) \<and>
            processedRecords st0a = processedRecords st0 + records_processed pre0 \<and>
            (later = [] \<or> (\<exists>sh tl. later = GetShardIteratorCall sh # tl)) \<and>
            (case thr of Some e \<Rightarrow> s = Rejected e \<and> rest = [] \<and> later = []
                 | None \<Rightarrow> while_loop fuel' t w c nxt st1 = (s0, rest, st2) \<and>
                     (s0 \<noteq> Finished \<longrightarrow> s = s0 \<and> later = []))"
          then obtain cur st0a thr ievs st1 nxt pre0 ipre ipost rest later fuel' s1 st2
            where b: "pre2 = pre0 @ ipre" "ievs = ipre @ x # ipost" "post = ipost @ rest @ later"
              "iteration t w c cur st0a = (thr, ievs, st1, nxt)" "cur \<noteq> []"
              "below_max c (processedRecords st0a)"
              "processedRecords st0a = processedRecords st0 + records_processed pre0"
              "later = [] \<or> (\<exists>sh tl. later = GetShardIteratorCall sh # tl)"
              "(case thr of Some e \<Rightarrow> s = Rejected e \<and> rest = [] \<and> later = []
                 | None \<Rightarrow> while_loop fuel' t w c nxt st1 = (s1, rest, st2) \<and>
                     (s1 \<noteq> Finished \<longrightarrow> s = s1 \<and> later = []))"
            by blast
          have p1: "pre = (p # evs0 @ pre0) @ ipre" using Cons a(1) b(1) by simp
          have p3: "processedRecords st0a =
              processedRecords st + records_processed (p # evs0 @ pre0)"
            using b(7) while_loop_processed [OF wl] p by (simp add: records_processed_append)
          from p1 b(2,3,4,5,6) p3 b(8,9) show ?thesis by blast
        qed
      qed
    qed
  qed
qed

lemma processStream_shards_loop:
  assumes "processStream fuel t w arn c = (s, evs, st)"
  shows "evs = [] \<and> st = \<lparr>processedRecords = 0, getRecordsCalls = 0, handlerCalls = 0\<rparr> \<or>
     shards_loop fuel t w c (described_shards w)
       \<lparr>processedRecords = 0, getRecordsCalls = 0, handlerCalls = 0\<rparr> = (s, evs, st)"
proof (cases "describeStream_response w")
  case (Inl e)
  with assms show ?thesis
    by (cases e) (auto simp: processStream_def describeStream_def handleError_def Let_def
        split: if_splits)
next
  case (Inr d)
  show ?thesis
  proof (cases d)
    case None
    with Inr assms show ?thesis
      by (auto simp: processStream_def describeStream_def Let_def)
  next
    case (Some so)
    with Inr assms show ?thesis
      by (cases so) (auto simp: processStream_def describeStream_def described_shards_def Let_def
          split: if_splits)
  qed
qed

lemma iteration_fetch:
  assumes i: "iteration t w c cur st = (thr, ievs, st1, nxt)"
    and e: "ievs = ipre @ GetRecordsCall cur' r # ipost"
  shows "ipre = [] \<and> cur' = cur \<and> \<not> list_ex is_fetch ipost \<and>
     \<not> list_ex is_iterator_request ipost \<and>
     (\<forall>rs nx. r = Success (rs, nx) \<longrightarrow> thr = None \<longrightarrow> nxt = nx)"
  using i e
  by (cases rule: iteration_cases) (auto simp: Cons_eq_append_conv split: if_splits)

lemma iteration_handler_call:
  assumes i: "iteration t w c cur st = (thr, ievs, st1, nxt)"
    and e: "ievs = ipre @ HandlerCall rs r rs' # ipost"
  shows "\<exists>nx. ipre = [GetRecordsCall cur (Success (rs, nx))] \<and>
     handler_outcome w (handlerCalls st) rs = (r, rs') \<and>
     (case r of
        None \<Rightarrow> thr = None \<and> nxt = nx \<and>
          ipost = (if rs' = [] then [Sleep (pollInterval c)] else []) \<and>
          processedRecords st1 = processedRecords st + length rs'
      | Some e \<Rightarrow> processedRecords st1 = processedRecords st \<and>
          (if stopOnError c then thr = Some e \<and> ipost = []
           else thr = None \<and> nxt = nx \<and>
             ipost = ConsoleError ''Error in stream handler:'' #
               (if rs' = [] then [Sleep (pollInterval c)] else [])))"
  using i e
  by (cases rule: iteration_cases) (auto simp: Cons_eq_append_conv split: if_splits)

lemma shards_loop_event_in_iteration:
  assumes "shards_loop fuel t w c shards st = (s, evs, st')" and "evs = pre @ x # post"
    and "\<not> is_iterator_request x"
  shows "\<exists>cur st0 thr ievs st1 nxt pre0 ipre ipost rest later fuel' s0 st2.
      pre = pre0 @ ipre \<and> ievs = ipre @ x # ipost \<and> post = ipost @ rest @ later \<and>
      iteration t w c cur st0 = (thr, ievs, st1, nxt) \<and> cur \<noteq> [] \<and>
      below_max c (processedRecords st0) \<and>
      processedRecords st0 = processedRecords st + records_processed pre0 \<and>
      (later = [] \<or> (\<exists>sh tl. later = GetShardIteratorCall sh # tl)) \<and>
      (case thr of Some e \<Rightarrow> s = Rejected e \<and> rest = [] \<and> later = []
                 | None \<Rightarrow> while_loop fuel' t w c nxt st1 = (s0, rest, st2) \<and>
                     (s0 \<noteq> Finished \<longrightarrow> s = s0 \<and> later = []))"
  using shards_loop_event [OF assms(1,2)] assms(3) by blast

lemma shards_loop_below_max:
  assumes sl: "shards_loop fuel t w c shards st = (s, evs, st')"
    and mx: "maxRecords c = Some N"
    and e: "evs = pre @ x # post"
    and x: "is_fetch x \<or> (\<exists>rs r rs'. x = HandlerCall rs r rs')"
  shows "int (processedRecords st + records_processed pre) < N"
proof -
  from x have "\<not> is_iterator_request x" by (cases x) auto
  from shards_loop_event_in_iteration [OF sl e this]
  obtain cur st0 thr ievs st1 nxt pre0 ipre ipost where
    b: "pre = pre0 @ ipre" "ievs = ipre @ x # ipost"
      "iteration t w c cur st0 = (thr, ievs, st1, nxt)"
      "below_max c (processedRecords st0)"
      "processedRecords st0 = processedRecords st + records_processed pre0"
    by blast
  have "records_processed ipre = 0"
  proof (cases x)
    case (GetRecordsCall cur' r)
    from iteration_fetch [OF b(3) b(2) [unfolded GetRecordsCall]] show ?thesis by simp
  next
    case (HandlerCall rs r rs')
    from iteration_handler_call [OF b(3) b(2) [unfolded HandlerCall]] show ?thesis by auto
  qed (insert x, auto)
  with b(1,5) have "processedRecords st0 = processedRecords st + records_processed pre"
    by (simp add: records_processed_append)
  with b(4) mx show ?thesis by (simp add: below_max_def)
qed

lemma takeWhile_no_requests:
  "\<not> list_ex is_iterator_request xs \<Longrightarrow> ys = [] \<or> (\<exists>sh tl. ys = GetShardIteratorCall sh # tl) \<Longrightarrow>
   rest_of_shard (xs @ ys) = xs"
  by (induction xs) (auto simp: rest_of_shard_def)

lemma shards_loop_exhausted:
  assumes sl: "shards_loop fuel t w c shards st = (s, evs, st')"
    and e: "evs = pre @ GetRecordsCall cur (Success (rs, None)) # post"
  shows "\<not> list_ex is_fetch (rest_of_shard post)"
proof -
  have "\<not> is_iterator_request (GetRecordsCall cur (Success (rs, None)))" by simp
  from shards_loop_event_in_iteration [OF sl e this]
  obtain cur0 st0 thr ievs st1 nxt pre0 ipre ipost rest later fuel' s0 st2 where
    b: "ievs = ipre @ GetRecordsCall cur (Success (rs, None)) # ipost"
      "post = ipost @ rest @ later"
      "iteration t w c cur0 st0 = (thr, ievs, st1, nxt)"
      "later = [] \<or> (\<exists>sh tl. later = GetShardIteratorCall sh # tl)"
      "(case thr of Some e \<Rightarrow> s = Rejected e \<and> rest = [] \<and> later = []
                 | None \<Rightarrow> while_loop fuel' t w c nxt st1 = (s0, rest, st2) \<and>
                     (s0 \<noteq> Finished \<longrightarrow> s = s0 \<and> later = []))"
    by blast
  from iteration_fetch [OF b(3) b(1)] have nf: "\<not> list_ex is_fetch ipost"
    and nr: "\<not> list_ex is_iterator_request ipost"
    and nx: "thr = None \<longrightarrow> nxt = None"
    by simp_all
  have "rest = []"
  proof (cases thr)
    case None
    with b(5) nx have "while_loop fuel' t w c None st1 = (s0, rest, st2)" by simp
    from while_loop_exit [OF this] show ?thesis by simp
  next
    case (Some e)
    with b(5) show ?thesis by simp
  qed
  with b(2) have "post = ipost @ later" by simp
  with takeWhile_no_requests [OF nr b(4)] nf show ?thesis by simp
qed


lemma shards_loop_handler_calls:
  assumes sl: "shards_loop fuel t w c shards st = (s, evs, st')"
    and m: "HandlerCall rs r rs' \<in> set evs"
  shows "\<exists>k. handler_outcome w k rs = (r, rs')"
proof -
  from split_list [OF m] obtain pre post where e: "evs = pre @ HandlerCall rs r rs' # post"
    by blast
  have "\<not> is_iterator_request (HandlerCall rs r rs')" by simp
  from shards_loop_event_in_iteration [OF sl e this]
  obtain cur0 st0 thr ievs st1 nxt0 ipre ipost where
    "ievs = ipre @ HandlerCall rs r rs' # ipost"
    "iteration t w c cur0 st0 = (thr, ievs, st1, nxt0)"
    by blast
  from iteration_handler_call [OF this(2,1)] show ?thesis by blast
qed

lemma records_processed_resolved:
  "\<forall>rs r rs'. HandlerCall rs r rs' \<in> set evs \<longrightarrow> length rs' = length rs \<Longrightarrow>
   records_processed evs = records_resolved evs"
  by (induction evs rule: records_processed.induct) auto

lemma shards_loop_keeps_length:
  assumes sl: "shards_loop fuel t w c shards st = (s, evs, st')"
    and k: "handler_keeps_length w" and e: "evs = pre @ post"
  shows "records_processed pre = records_resolved pre"
proof (rule records_processed_resolved, intro allI impI)
  fix rs r rs'
  assume "HandlerCall rs r rs' \<in> set pre"
  with e have "HandlerCall rs r rs' \<in> set evs" by simp
  from shards_loop_handler_calls [OF sl this] obtain j where "handler_outcome w j rs = (r, rs')"
    by blast
  with k [unfolded handler_keeps_length_def, rule_format, of j rs]
  show "length rs' = length rs" by simp
qed

lemma run_two_shards:
  "processStream 5 False world_two_shards ''arn'' config_max_3 =
     (Finished,
      [GetShardIteratorCall ''s1'',
       GetRecordsCall ''a0'' (Success ([''r1'', ''r2''], Some ''a1'')),
       HandlerCall [''r1'', ''r2''] None [''r1'', ''r2''],
       GetRecordsCall ''a1'' (Success ([''r3'', ''r4''], Some ''a2'')),
       HandlerCall [''r3'', ''r4''] None [''r3'', ''r4''],
       GetShardIteratorCall ''s2''],
      \<lparr>processedRecords = 4, getRecordsCalls = 2, handlerCalls = 2\<rparr>)"
  by code_simp

lemma run_two_records:
  "processStream 5 False world_two_records ''arn'' config_max_1 =
     (Finished,
      [GetShardIteratorCall ''s1'',
       GetRecordsCall ''i0'' (Success ([''r1'', ''r2''], None)),
       HandlerCall [''r1'', ''r2''] None [''r1'', ''r2'']],
      \<lparr>processedRecords = 2, getRecordsCalls = 1, handlerCalls = 1\<rparr>)"
  by code_simp



lemma maxRecords_config_max_1: "maxRecords config_max_1 = Some 1"
  by (simp add: maxRecords_def config_max_1_def)

lemma maxRecords_config_max_3: "maxRecords config_max_3 = Some 3"
  by (simp add: maxRecords_def config_max_3_def)

text \<open>
  C4, as amended. In a run with a maximum \<open>N\<close> in force (\<^verbatim>\<open>maxRecords\<close> given and not
  0), whatever the fuel, the environment and the world: every fetch and every handler
  invocation starts with fewer than \<open>N\<close> records processed, by the processor's own count,
  which adds, for each invocation that resolved, the length of the array as the handler left
  it, and which is what \<^verbatim>\<open>processedRecords\<close> holds at the end; when the handler leaves
  the length of its array alone, that count is, at every moment, the number of records passed
  to the invocations that resolved. The shards an iterator was requested for are an initial
  part of the described shards, in their order, so that no shard with a distinct id gets a
  second iterator; and after a fetch that returned no next iterator nothing is fetched before
  the next shard's iterator is requested.
\<close>

theorem C4_processed_below_max_before_each_batch:
  assumes run: "processStream fuel t w arn c = (s, evs, st)"
    and mx: "maxRecords c = Some N"
  shows "(\<forall>pre x post. evs = pre @ x # post \<and>
            (is_fetch x \<or> (\<exists>rs r rs'. x = HandlerCall rs r rs')) \<longrightarrow>
            int (records_processed pre) < N) \<and>
     processedRecords st = records_processed evs \<and>
     (handler_keeps_length w \<longrightarrow>
        (\<forall>pre post. evs = pre @ post \<longrightarrow> records_processed pre = records_resolved pre)) \<and>
     (\<exists>rest. described_shards w = iterator_requests evs @ rest) \<and>
     (distinct (described_shards w) \<longrightarrow> distinct (iterator_requests evs)) \<and>
     (\<forall>pre cur rs post. evs = pre @ GetRecordsCall cur (Success (rs, None)) # post \<longrightarrow>
        \<not> list_ex is_fetch (rest_of_shard post))"
proof -
  let ?st0 = "\<lparr>processedRecords = 0, getRecordsCalls = 0, handlerCalls = 0\<rparr>"
  from processStream_shards_loop [OF run] show ?thesis
  proof
    assume "evs = [] \<and> st = ?st0"
    then show ?thesis by simp
  next
    assume sl: "shards_loop fuel t w c (described_shards w) ?st0 = (s, evs, st)"
    have a: "\<forall>pre x post. evs = pre @ x # post \<and>
            (is_fetch x \<or> (\<exists>rs r rs'. x = HandlerCall rs r rs')) \<longrightarrow>
            int (records_processed pre) < N"
    proof (intro allI impI, elim conjE)
      fix pre x post
      assume "evs = pre @ x # post" "is_fetch x \<or> (\<exists>rs r rs'. x = HandlerCall rs r rs')"
      from shards_loop_below_max [OF sl mx this] show "int (records_processed pre) < N" by simp
    qed
    from shards_loop_processed [OF sl] have b: "processedRecords st = records_processed evs"
      by simp
    have k: "handler_keeps_length w \<longrightarrow>
        (\<forall>pre post. evs = pre @ post \<longrightarrow> records_processed pre = records_resolved pre)"
      using shards_loop_keeps_length [OF sl] by blast
    from shards_loop_iterator_requests [OF sl]
    have c: "\<exists>rest. described_shards w = iterator_requests evs @ rest" .
    then have d: "distinct (described_shards w) \<longrightarrow> distinct (iterator_requests evs)"
      by auto
    have x: "\<forall>pre cur rs post. evs = pre @ GetRecordsCall cur (Success (rs, None)) # post \<longrightarrow>
        \<not> list_ex is_fetch (rest_of_shard post)"
      using shards_loop_exhausted [OF sl] by blast
    from a b k c d x show ?thesis by (intro conjI)
  qed
qed

theorem C4_processed_below_max_witness:
  "processStream 5 False world_two_shards ''arn'' config_max_3 =
     (Finished,
      [GetShardIteratorCall ''s1'',
       GetRecordsCall ''a0'' (Success ([''r1'', ''r2''], Some ''a1'')),
       HandlerCall [''r1'', ''r2''] None [''r1'', ''r2''],
       GetRecordsCall ''a1'' (Success ([''r3'', ''r4''], Some ''a2'')),
       HandlerCall [''r3'', ''r4''] None [''r3'', ''r4''],
       GetShardIteratorCall ''s2''],
      \<lparr>processedRecords = 4, getRecordsCalls = 2, handlerCalls = 2\<rparr>) \<and>
   maxRecords config_max_3 = Some 3 \<and>
   records_processed
     [GetShardIteratorCall ''s1'',
      GetRecordsCall ''a0'' (Success ([''r1'', ''r2''], Some ''a1'')),
      HandlerCall [''r1'', ''r2''] None [''r1'', ''r2''],
      GetRecordsCall ''a1'' (Success ([''r3'', ''r4''], Some ''a2''))] = 2 \<and>
   int (records_processed
     [GetShardIteratorCall ''s1'',
      GetRecordsCall ''a0'' (Success ([''r1'', ''r2''], Some ''a1'')),
      HandlerCall [''r1'', ''r2''] None [''r1'', ''r2''],
      GetRecordsCall ''a1'' (Success ([''r3'', ''r4''], Some ''a2''))]) < 3 \<and>
   processedRecords \<lparr>processedRecords = 4, getRecordsCalls = 2, handlerCalls = 2\<rparr> =
     records_processed
       [GetShardIteratorCall ''s1'',
        GetRecordsCall ''a0'' (Success ([''r1'', ''r2''], Some ''a1'')),
        HandlerCall [''r1'', ''r2''] None [''r1'', ''r2''],
        GetRecordsCall ''a1'' (Success ([''r3'', ''r4''], Some ''a2'')),
        HandlerCall [''r3'', ''r4''] None [''r3'', ''r4''],
        GetShardIteratorCall ''s2''] \<and>
   (\<exists>rest. described_shards world_two_shards =
      iterator_requests
        [GetShardIteratorCall ''s1'',
         GetRecordsCall ''a0'' (Success ([''r1'', ''r2''], Some ''a1'')),
         HandlerCall [''r1'', ''r2''] None [''r1'', ''r2''],
         GetRecordsCall ''a1'' (Success ([''r3'', ''r4''], Some ''a2'')),
         HandlerCall [''r3'', ''r4''] None [''r3'', ''r4''],
         GetShardIteratorCall ''s2''] @ rest)"
proof -
  let ?pre = "[GetShardIteratorCall ''s1'',
      GetRecordsCall ''a0'' (Success ([''r1'', ''r2''], Some ''a1'')),
      HandlerCall [''r1'', ''r2''] None [''r1'', ''r2''],
      GetRecordsCall ''a1'' (Success ([''r3'', ''r4''], Some ''a2''))]"
  let ?x = "HandlerCall [''r3'', ''r4''] None [''r3'', ''r4'']"
  let ?post = "[GetShardIteratorCall ''s2'']"
  let ?evs = "[GetShardIteratorCall ''s1'',
       GetRecordsCall ''a0'' (Success ([''r1'', ''r2''], Some ''a1'')),
       HandlerCall [''r1'', ''r2''] None [''r1'', ''r2''],
       GetRecordsCall ''a1'' (Success ([''r3'', ''r4''], Some ''a2'')),
       HandlerCall [''r3'', ''r4''] None [''r3'', ''r4''],
       GetShardIteratorCall ''s2'']"
  note inst = C4_processed_below_max_before_each_batch [OF run_two_shards maxRecords_config_max_3]
  have sp: "?evs = ?pre @ ?x # ?post \<and>
      (is_fetch ?x \<or> (\<exists>rs r rs'. ?x = HandlerCall rs r rs'))"
    by simp
  from inst have "\<forall>pre x post. ?evs = pre @ x # post \<and>
            (is_fetch x \<or> (\<exists>rs r rs'. x = HandlerCall rs r rs')) \<longrightarrow>
            int (records_processed pre) < 3"
    by (rule conjunct1)
  with sp have a: "int (records_processed ?pre) < 3" by blast
  have a0: "records_processed ?pre = 2" by simp
  from inst have b: "processedRecords \<lparr>processedRecords = 4, getRecordsCalls = 2, handlerCalls = 2\<rparr> =
      records_processed ?evs"
    by (rule conjunct1 [OF conjunct2])
  from inst have c: "\<exists>rest. described_shards world_two_shards = iterator_requests ?evs @ rest"
    by (rule conjunct1 [OF conjunct2 [OF conjunct2 [OF conjunct2]]])
  from run_two_shards maxRecords_config_max_3 a0 a b c show ?thesis by (intro conjI)
qed

text \<open>
  The claim as stated fails: with \<^verbatim>\<open>maxRecords = 1\<close> a fetch that returns two records
  hands both to the handler, since the maximum is only tested before a fetch and a batch is
  never cut.
\<close>

theorem C4_batch_exceeds_max_counterexample:
  "maxRecords config_max_1 = Some 1 \<and>
   records_passed (fst (snd (processStream 5 False world_two_records ''arn'' config_max_1))) = 2 \<and>
   \<not> int (records_passed
          (fst (snd (processStream 5 False world_two_records ''arn'' config_max_1)))) \<le> 1"
  by (simp add: run_two_records maxRecords_config_max_1)




end
